theory Spec2Isabelle
  imports Main "HOL-Library.Word" "HOL-Library.AList" "HOL-Library.Char_ord" "HOL-Library.List_Lexorder"
begin

unbundle bit_operations_syntax

section \<open>Basic types\<close>

type_synonym u64 = "64 word"
type_synonym byte = "8 word"
type_synonym bytes = "byte list"

text \<open>
  A path is the list of the components of a cleaned slash-separated path;
  \<open>path.Join(p, name)\<close> with a single clean component appends it.
\<close>

type_synonym path = "string list"

definition path_Join :: "path \<Rightarrow> string \<Rightarrow> path" where
  "path_Join p name = p @ [name]"

text \<open>
  Errors of the program and of the library calls it makes. The first four are the
  operating system's; \<open>NilDereference\<close> is the run-time panic of a method call on a
  nil pointer, which unwinds the calling goroutine instead of returning.
\<close>

datatype error =
    ENOENT | ENOTDIR | EISDIR | EEXIST
  | ErrSyntax | ErrRange
  | ErrConflict
  | ErrCannotParseHeight
  | ErrBucketExists
  | ErrCodec
  | NilDereference

section \<open>Library functions: fmt and strconv\<close>

definition digit_char :: "nat \<Rightarrow> char" where
  "digit_char d = ''0123456789'' ! d"

text \<open>\<open>fmt.Sprintf("%d", n)\<close> for a non-negative \<open>n\<close>.\<close>

function fmt_d :: "nat \<Rightarrow> string" where
  "fmt_d n = (if n < 10 then [digit_char n] else fmt_d (n div 10) @ [digit_char (n mod 10)])"
  by pat_completeness auto
termination
  by (relation "measure id") auto

declare fmt_d.simps [simp del]

definition digit_val :: "char \<Rightarrow> int option" where
  "digit_val c = (if CHR ''0'' \<le> c \<and> c \<le> CHR ''9'' then Some (of_char c - 48) else None)"

fun parse_digits :: "int \<Rightarrow> string \<Rightarrow> int option" where
  "parse_digits acc [] = Some acc"
| "parse_digits acc (c # cs) =
     (case digit_val c of None \<Rightarrow> None | Some d \<Rightarrow> parse_digits (acc * 10 + d) cs)"

text \<open>
  \<open>strconv.ParseUint(s, 10, 64)\<close>: decimal digits only, no sign, at most \<open>2^64 - 1\<close>.
  The program only asks whether there is an error, never which.
\<close>

definition ParseUint :: "string \<Rightarrow> error + u64" where
  "ParseUint s =
     (if s = [] then Inl ErrSyntax
      else case parse_digits 0 s of
             None \<Rightarrow> Inl ErrSyntax
           | Some n \<Rightarrow> if n < 2 ^ 64 then Inr (word_of_int n) else Inl ErrRange)"

text \<open>\<open>strconv.Atoi(s)\<close> with a 64-bit \<open>int\<close>: an optional sign, then decimal digits.\<close>

definition Atoi :: "string \<Rightarrow> error + int" where
  "Atoi s =
     (let neg = (s \<noteq> [] \<and> hd s = CHR ''-'');
          ds = (if s \<noteq> [] \<and> (hd s = CHR ''-'' \<or> hd s = CHR ''+'') then tl s else s)
      in if ds = [] then Inl ErrSyntax
         else case parse_digits 0 ds of
                None \<Rightarrow> Inl ErrSyntax
              | Some n \<Rightarrow>
                  if neg then (if n \<le> 2 ^ 63 then Inr (- n) else Inl ErrRange)
                  else (if n < 2 ^ 63 then Inr n else Inl ErrRange))"

section \<open>The file system\<close>

text \<open>
  The file system is a table from paths to nodes. The root \<open>[]\<close> is a directory.
  An operation on a path first resolves the directories above it (\<open>walk\<close>).
  An operation fails only for what the table holds: a missing name, a file in the
  place of a directory, a name that is taken.
\<close>

datatype node = File bytes | Dir

type_synonym fs = "(path \<times> node) list"

definition stat :: "fs \<Rightarrow> path \<Rightarrow> node option" where
  "stat t p = (if p = [] then Some Dir else map_of t p)"

fun walk :: "fs \<Rightarrow> path \<Rightarrow> path \<Rightarrow> error + unit" where
  "walk t pre [] = Inr ()"
| "walk t pre (c # cs) =
     (case stat t pre of
        None \<Rightarrow> Inl ENOENT
      | Some (File _) \<Rightarrow> Inl ENOTDIR
      | Some Dir \<Rightarrow> walk t (pre @ [c]) cs)"

text \<open>\<open>os.MkdirAll\<close>: makes the directory and the missing ones above it.\<close>

fun mkdirAll_from :: "fs \<Rightarrow> path \<Rightarrow> path \<Rightarrow> (error + unit) \<times> fs" where
  "mkdirAll_from t pre [] = (Inr (), t)"
| "mkdirAll_from t pre (c # cs) =
     (case stat t (pre @ [c]) of
        Some (File _) \<Rightarrow> (Inl ENOTDIR, t)
      | Some Dir \<Rightarrow> mkdirAll_from t (pre @ [c]) cs
      | None \<Rightarrow> mkdirAll_from (AList.update (pre @ [c]) Dir t) (pre @ [c]) cs)"

definition MkdirAll :: "fs \<Rightarrow> path \<Rightarrow> (error + unit) \<times> fs" where
  "MkdirAll t p = mkdirAll_from t [] p"

text \<open>\<open>ioutil.ReadFile\<close>.\<close>

definition ReadFile :: "fs \<Rightarrow> path \<Rightarrow> error + bytes" where
  "ReadFile t p =
     (case walk t [] p of
        Inl e \<Rightarrow> Inl e
      | Inr _ \<Rightarrow>
          (case stat t p of
             None \<Rightarrow> Inl ENOENT
           | Some Dir \<Rightarrow> Inl EISDIR
           | Some (File b) \<Rightarrow> Inr b))"

text \<open>
  \<open>os.OpenFile(name, O_RDWR|O_CREATE|O_EXCL, 0600)\<close>: creates an empty file, and fails
  with \<open>EEXIST\<close> when the name is taken. The handle is the path.
\<close>

definition OpenFile_excl :: "fs \<Rightarrow> path \<Rightarrow> (error + path) \<times> fs" where
  "OpenFile_excl t p =
     (case walk t [] p of
        Inl e \<Rightarrow> (Inl e, t)
      | Inr _ \<Rightarrow>
          (case stat t p of
             Some _ \<Rightarrow> (Inl EEXIST, t)
           | None \<Rightarrow> (Inr p, AList.update p (File []) t)))"

text \<open>\<open>f.Write(bits)\<close> on a handle that was just opened.\<close>

definition file_Write :: "fs \<Rightarrow> path \<Rightarrow> bytes \<Rightarrow> fs" where
  "file_Write t f bits = AList.update f (File bits) t"

text \<open>\<open>ioutil.WriteFile\<close>: creates the file or replaces its contents.\<close>

definition WriteFile :: "fs \<Rightarrow> path \<Rightarrow> bytes \<Rightarrow> (error + unit) \<times> fs" where
  "WriteFile t p bits =
     (case walk t [] p of
        Inl e \<Rightarrow> (Inl e, t)
      | Inr _ \<Rightarrow>
          (case stat t p of
             Some Dir \<Rightarrow> (Inl EISDIR, t)
           | _ \<Rightarrow> (Inr (), AList.update p (File bits) t)))"

text \<open>
  \<open>ioutil.ReadDir\<close>: the entries of a directory, each a name and whether it is a
  directory, sorted by name.
\<close>

definition is_Dir :: "node \<Rightarrow> bool" where
  "is_Dir n = (case n of Dir \<Rightarrow> True | File _ \<Rightarrow> False)"

definition entries :: "fs \<Rightarrow> path \<Rightarrow> (string \<times> bool) list" where
  "entries t p =
     sort_key fst (map (\<lambda>(q, n). (last q, is_Dir n)) (filter (\<lambda>(q, n). q \<noteq> [] \<and> butlast q = p) t))"

definition ReadDir :: "fs \<Rightarrow> path \<Rightarrow> error + (string \<times> bool) list" where
  "ReadDir t p =
     (case walk t [] p of
        Inl e \<Rightarrow> Inl e
      | Inr _ \<Rightarrow>
          (case stat t p of
             None \<Rightarrow> Inl ENOENT
           | Some (File _) \<Rightarrow> Inl ENOTDIR
           | Some Dir \<Rightarrow> Inr (entries t p)))"

section \<open>Blocks and snapshots\<close>

text \<open>
  \<open>bc.Block\<close> and \<open>state.Snapshot\<close> belong to the protocol library. The store uses a
  block through its height and its serialisation, and a snapshot through its height,
  its serialisation and the empty snapshot; these are parameters of the model.
\<close>

record 'b block_ops =
  Height :: "'b \<Rightarrow> u64"
  Bytes :: "'b \<Rightarrow> error + bytes"
  FromBytes :: "bytes \<Rightarrow> error + 'b"

record 's snapshot_ops =
  sHeight :: "'s \<Rightarrow> u64"
  sBytes :: "'s \<Rightarrow> error + bytes"
  sFromBytes :: "bytes \<Rightarrow> error + 's"
  Empty :: "'s"

section \<open>The file-system store (store.go)\<close>

text \<open>
  The store holds its directory and a height. The mutex around the height and the
  channel \<open>heights\<close>, on which \<open>FinalizeHeight\<close> sends, order concurrent callers
  and are not part of this state. Every operation takes the store and the file system
  and returns both; the two loops of \<open>newBlockStore\<close> are \<open>highest_dir\<close> and
  \<open>highest_file\<close>.
\<close>

record blockStore =
  dir :: path
  height :: u64

type_synonym fstate = "blockStore \<times> fs"

definition blockFilename :: "path \<Rightarrow> u64 \<Rightarrow> path \<times> string" where
  "blockFilename root h =
     (let n = h div 1000
      in (path_Join root (fmt_d (unat (n * 1000)) @ ''-'' @ fmt_d (unat (n * 1000 + 999))),
          fmt_d (unat h)))"

text \<open>The file of a block, as \<open>GetBlock\<close> and \<open>SaveBlock\<close> compute it.\<close>

definition block_path :: "path \<Rightarrow> u64 \<Rightarrow> path" where
  "block_path root h = (case blockFilename root h of (d, filename) \<Rightarrow> path_Join d filename)"

definition highest_dir :: "(string \<times> bool) list \<Rightarrow> int" where
  "highest_dir infos =
     fold (\<lambda>(name, isdir) highestDir.
             if \<not> isdir then highestDir
             else case Atoi name of
                    Inl _ \<Rightarrow> highestDir
                  | Inr n \<Rightarrow> if n > highestDir then n else highestDir)
          infos (- 1)"

definition highest_file :: "(string \<times> bool) list \<Rightarrow> u64" where
  "highest_file infos =
     fold (\<lambda>(name, isdir) h.
             if isdir then h
             else case ParseUint name of
                    Inl _ \<Rightarrow> h
                  | Inr n \<Rightarrow> if n > h then n else h)
          infos 0"

definition newBlockStore :: "fs \<Rightarrow> path \<Rightarrow> (error + blockStore) \<times> fs" where
  "newBlockStore t d =
     (case MkdirAll t d of
        (Inl e, t1) \<Rightarrow> (Inl e, t1)
      | (Inr _, t1) \<Rightarrow>
          (case ReadDir t1 d of
             Inl e \<Rightarrow> (Inl e, t1)
           | Inr infos \<Rightarrow>
               (let highestDir = highest_dir infos
                in if highestDir \<ge> 0
                   then (let subdir = path_Join d (fmt_d (nat highestDir))
                         in case ReadDir t1 subdir of
                              Inl e \<Rightarrow> (Inl e, t1)
                            | Inr infos2 \<Rightarrow> (Inr \<lparr>dir = d, height = highest_file infos2\<rparr>, t1))
                   else (Inr \<lparr>dir = d, height = 0\<rparr>, t1))))"

definition fs_Height :: "fstate \<Rightarrow> error + u64" where
  "fs_Height st = Inr (height (fst st))"

definition fs_GetBlock :: "'b block_ops \<Rightarrow> fstate \<Rightarrow> u64 \<Rightarrow> error + 'b" where
  "fs_GetBlock bo st h =
     (case ReadFile (snd st) (block_path (dir (fst st)) h) of
        Inl e \<Rightarrow> Inl e
      | Inr bits \<Rightarrow> FromBytes bo bits)"

definition fs_LatestSnapshot :: "'s snapshot_ops \<Rightarrow> fstate \<Rightarrow> error + 's" where
  "fs_LatestSnapshot so st =
     (case ReadFile (snd st) (path_Join (dir (fst st)) ''snapshot'') of
        Inl e \<Rightarrow> (if e = ENOENT then Inr (Empty so) else Inl e)
      | Inr bits \<Rightarrow> sFromBytes so bits)"

definition fs_SaveBlock :: "'b block_ops \<Rightarrow> fstate \<Rightarrow> 'b \<Rightarrow> (error + unit) \<times> fstate" where
  "fs_SaveBlock bo st b =
     (case st of (s, t) \<Rightarrow>
        (case Bytes bo b of
           Inl e \<Rightarrow> (Inl e, (s, t))
         | Inr bits \<Rightarrow>
             (case blockFilename (dir s) (Height bo b) of (d, filename0) \<Rightarrow>
                (case MkdirAll t d of
                   (Inl e, t1) \<Rightarrow> (Inl e, (s, t1))
                 | (Inr _, t1) \<Rightarrow>
                     (let filename = path_Join d filename0
                      in case OpenFile_excl t1 filename of
                           (Inl e, t2) \<Rightarrow>
                             (if e = EEXIST
                              then (case ReadFile t2 filename of
                                      Inl e' \<Rightarrow> (Inl e', (s, t2))
                                    | Inr got \<Rightarrow>
                                        if got = bits then (Inr (), (s, t2))
                                        else (Inl ErrConflict, (s, t2)))
                              else (Inl e, (s, t2)))
                         | (Inr f, t2) \<Rightarrow> (Inr (), (s, file_Write t2 f bits)))))))"

definition fs_SaveSnapshot :: "'s snapshot_ops \<Rightarrow> fstate \<Rightarrow> 's \<Rightarrow> (error + unit) \<times> fstate" where
  "fs_SaveSnapshot so st snapshot =
     (case st of (s, t) \<Rightarrow>
        (case sBytes so snapshot of
           Inl e \<Rightarrow> (Inl e, (s, t))
         | Inr bits \<Rightarrow>
             (case WriteFile t (path_Join (dir s) ''snapshot'') bits of
                (r, t1) \<Rightarrow> (r, (s, t1)))))"

section \<open>Library functions: encoding/binary\<close>

text \<open>\<open>binary.PutUvarint\<close>: seven bits to a byte, the low ones first.\<close>

function PutUvarint :: "u64 \<Rightarrow> bytes" where
  "PutUvarint x =
     (if x \<ge> 0x80 then (ucast x OR 0x80) # PutUvarint (drop_bit 7 x) else [ucast x])"
  by pat_completeness auto
termination
proof (relation "measure unat")
  show "wf (measure unat)" by simp
next
  fix x :: u64
  assume "0x80 \<le> x"
  then have "128 \<le> unat x" by (simp add: word_le_nat_alt)
  then have "unat x div 128 < unat x" by simp
  then show "(drop_bit 7 x, x) \<in> measure unat"
    by (simp add: unat_drop_bit_eq) (simp add: drop_bit_eq_div)
qed

declare PutUvarint.simps [simp del]

text \<open>
  \<open>binary.Uvarint\<close>: the value and the number of bytes read; the count is 0 when the
  buffer ends too early and negative on overflow.
\<close>

fun uvarint_loop :: "bytes \<Rightarrow> nat \<Rightarrow> u64 \<Rightarrow> nat \<Rightarrow> u64 \<times> int" where
  "uvarint_loop [] i x s = (0, 0)"
| "uvarint_loop (b # bs) i x s =
     (if i = 10 then (0, - (int i + 1))
      else if b < 0x80
           then (if i = 9 \<and> b > 1 then (0, - (int i + 1))
                 else (x OR push_bit s (ucast b), int i + 1))
           else uvarint_loop bs (i + 1) (x OR push_bit s (ucast (b AND 0x7f))) (s + 7))"

definition Uvarint :: "bytes \<Rightarrow> u64 \<times> int" where
  "Uvarint buf = uvarint_loop buf 0 0 0"

section \<open>The embedded key-value store (main.go, the bbolt store)\<close>

text \<open>
  A bucket maps keys to values. The root bucket holds the keys \<open>height\<close> and
  \<open>latest_snapshot\<close> and the nested bucket \<open>blocks\<close>, which holds one bucket for each
  height, named by the height's varint, with the keys \<open>block\<close> and \<open>snapshot\<close>.
  \<open>tx.Bucket\<close> and \<open>Bucket.Bucket\<close> return nil for a missing bucket, and a method
  call on nil panics; \<open>Get\<close> returns nil for a missing key, which the program only
  measures or parses, as it would the empty slice.
\<close>

type_synonym bucket = "string \<rightharpoonup> bytes"

record root_bucket =
  kv :: bucket
  blocks :: "(bytes \<rightharpoonup> bucket) option"

type_synonym db = "root_bucket option"

definition Get :: "bucket \<Rightarrow> string \<Rightarrow> bytes" where
  "Get bu k = (case bu k of None \<Rightarrow> [] | Some v \<Rightarrow> v)"

text \<open>
  \<open>db.Update\<close> commits what the function did when it returns nil and rolls it back
  when it returns an error or panics; \<open>db.View\<close> only reads.
\<close>

definition db_Update :: "db \<Rightarrow> (db \<Rightarrow> (error + 'a) \<times> db) \<Rightarrow> (error + 'a) \<times> db" where
  "db_Update d fn = (case fn d of (Inl e, _) \<Rightarrow> (Inl e, d) | (Inr x, d') \<Rightarrow> (Inr x, d'))"

definition db_View :: "db \<Rightarrow> (db \<Rightarrow> error + 'a) \<Rightarrow> error + 'a" where
  "db_View d fn = fn d"

definition getHeight :: "db \<Rightarrow> error + u64" where
  "getHeight tx =
     (case tx of
        None \<Rightarrow> Inl NilDereference
      | Some root \<Rightarrow>
          (case Uvarint (Get (kv root) ''height'') of
             (h, n) \<Rightarrow> if n < 1 then Inl ErrCannotParseHeight else Inr h))"

text \<open>
  \<open>newBlockStore\<close>; \<open>initialBlock\<close> is what \<open>protocol.NewInitialBlock\<close> returns.
\<close>

definition db_newBlockStore :: "'b block_ops \<Rightarrow> error + 'b \<Rightarrow> db \<Rightarrow> (error + unit) \<times> db" where
  "db_newBlockStore bo initialBlock d =
     db_Update d (\<lambda>tx.
       (let root = (case tx of None \<Rightarrow> \<lparr>kv = Map.empty, blocks = None\<rparr> | Some r \<Rightarrow> r)
        in if length (Get (kv root) ''height'') = 0
           then (case blocks root of
                   Some _ \<Rightarrow> (Inl ErrBucketExists, Some root)
                 | None \<Rightarrow>
                     (let hkey = PutUvarint 1
                      in case initialBlock of
                           Inl e \<Rightarrow> (Inl e, Some root)
                         | Inr ib \<Rightarrow>
                             (case Bytes bo ib of
                                Inl e \<Rightarrow> (Inl e, Some root)
                              | Inr bbytes \<Rightarrow>
                                  (Inr (),
                                   Some \<lparr>kv = (kv root)(''height'' \<mapsto> hkey),
                                         blocks = Some [hkey \<mapsto> [''block'' \<mapsto> bbytes]]\<rparr>))))
           else (Inr (), Some root)))"

definition db_Height :: "db \<Rightarrow> error + u64" where
  "db_Height d = db_View d getHeight"

definition db_GetBlock :: "'b block_ops \<Rightarrow> db \<Rightarrow> u64 \<Rightarrow> error + 'b" where
  "db_GetBlock bo d h =
     db_View d (\<lambda>tx.
       case tx of
         None \<Rightarrow> Inl NilDereference
       | Some root \<Rightarrow>
           (case blocks root of
              None \<Rightarrow> Inl NilDereference
            | Some bl \<Rightarrow>
                (case bl (PutUvarint h) of
                   None \<Rightarrow> Inl NilDereference
                 | Some bu \<Rightarrow> FromBytes bo (Get bu ''block''))))"

definition db_LatestSnapshot :: "'s snapshot_ops \<Rightarrow> db \<Rightarrow> error + 's" where
  "db_LatestSnapshot so d =
     db_View d (\<lambda>tx.
       case tx of
         None \<Rightarrow> Inl NilDereference
       | Some root \<Rightarrow>
           (let bits = Get (kv root) ''latest_snapshot''
            in if length bits > 0 then sFromBytes so bits else Inr (Empty so)))"

definition db_SaveBlock :: "'b block_ops \<Rightarrow> db \<Rightarrow> 'b \<Rightarrow> (error + unit) \<times> db" where
  "db_SaveBlock bo d b =
     db_Update d (\<lambda>tx.
       case getHeight tx of
         Inl e \<Rightarrow> (Inl e, tx)
       | Inr h \<Rightarrow>
           (case tx of
              None \<Rightarrow> (Inl NilDereference, tx)
            | Some root \<Rightarrow>
                (case blocks root of
                   None \<Rightarrow> (Inl NilDereference, tx)
                 | Some bl \<Rightarrow>
                     (let hbits = PutUvarint (Height bo b);
                          bu = (case bl hbits of None \<Rightarrow> Map.empty | Some bu0 \<Rightarrow> bu0);
                          tx1 = Some (root\<lparr>blocks := Some (bl(hbits \<mapsto> bu))\<rparr>)
                      in case Bytes bo b of
                           Inl e \<Rightarrow> (Inl e, tx1)
                         | Inr bits \<Rightarrow>
                             (let exists = Get bu ''block''
                              in if length exists > 0
                                 then (if bits \<noteq> exists then (Inl ErrConflict, tx1)
                                       else (Inr (), tx1))
                                 else (let root2 = root\<lparr>blocks :=
                                                     Some (bl(hbits \<mapsto> bu(''block'' \<mapsto> bits)))\<rparr>
                                       in if Height bo b > h
                                          then (Inr (),
                                                Some (root2\<lparr>kv := (kv root2)(''height'' \<mapsto> hbits)\<rparr>))
                                          else (Inr (), Some root2)))))))"

definition db_SaveSnapshot :: "'s snapshot_ops \<Rightarrow> db \<Rightarrow> 's \<Rightarrow> (error + unit) \<times> db" where
  "db_SaveSnapshot so d snapshot =
     (let sheight = sHeight so snapshot
      in if sheight = 0 then (Inr (), d)
         else db_Update d (\<lambda>tx.
           case getHeight tx of
             Inl e \<Rightarrow> (Inl e, tx)
           | Inr h \<Rightarrow>
               (case tx of
                  None \<Rightarrow> (Inl NilDereference, tx)
                | Some root \<Rightarrow>
                    (case blocks root of
                       None \<Rightarrow> (Inl NilDereference, tx)
                     | Some bl \<Rightarrow>
                         (let hbits = PutUvarint sheight;
                              bu = (case bl hbits of None \<Rightarrow> Map.empty | Some bu0 \<Rightarrow> bu0)
                          in case sBytes so snapshot of
                               Inl e \<Rightarrow> (Inl e, tx)
                             | Inr bits \<Rightarrow>
                                 (let root2 = root\<lparr>blocks :=
                                                Some (bl(hbits \<mapsto> bu(''snapshot'' \<mapsto> bits)))\<rparr>;
                                      latestBits = Get (kv root2) ''latest_snapshot''
                                  in if length latestBits > 0
                                     then (case sFromBytes so latestBits of
                                             Inl e \<Rightarrow> (Inl e, tx)
                                           | Inr latest \<Rightarrow>
                                               if sHeight so latest > sheight
                                               then (Inr (), Some root2)
                                               else (Inr (),
                                                     Some (root2\<lparr>kv := (kv root2)(''latest_snapshot'' \<mapsto> bits)\<rparr>)))
                                     else (Inr (),
                                           Some (root2\<lparr>kv := (kv root2)(''latest_snapshot'' \<mapsto> bits)\<rparr>))))))))"

text \<open>The bytes under the key \<open>block\<close> of the bucket of a height, when there are any.\<close>

definition db_block :: "db \<Rightarrow> u64 \<Rightarrow> bytes option" where
  "db_block d h =
     (case d of
        None \<Rightarrow> None
      | Some root \<Rightarrow>
          (case blocks root of
             None \<Rightarrow> None
           | Some bl \<Rightarrow> (case bl (PutUvarint h) of None \<Rightarrow> None | Some bu \<Rightarrow> bu ''block'')))"

section \<open>The handler of /get (main.go, both versions)\<close>

text \<open>
  The handler sees the chain through its height, through the waiter for a height
  (\<open>True\<close> when the waiter fires before the request's context is done) and through
  \<open>chain.GetBlock\<close>. The result is the response and whether the handler reached the
  \<open>select\<close>, that is, whether it blocked.
\<close>

datatype response = HttpError nat | HttpOK bytes | WriteFailed

record 'b chain_view =
  chain_Height :: u64
  chain_BlockWaiter :: "u64 \<Rightarrow> bool"
  chain_GetBlock :: "u64 \<Rightarrow> error + 'b"

definition serve_block :: "'b block_ops \<Rightarrow> 'b chain_view \<Rightarrow> bool \<Rightarrow> u64 \<Rightarrow> response" where
  "serve_block bo ch write_ok want =
     (case chain_GetBlock ch want of
        Inl e \<Rightarrow> HttpError 500
      | Inr b \<Rightarrow>
          (case Bytes bo b of
             Inl e \<Rightarrow> HttpError 500
           | Inr bits \<Rightarrow> if write_ok then HttpOK bits else WriteFailed))"

text \<open>The version that serves a directory: a missing \<open>height\<close> leaves \<open>want\<close> at 0.\<close>

definition get_dir :: "'b block_ops \<Rightarrow> 'b chain_view \<Rightarrow> bool \<Rightarrow> string \<Rightarrow> response \<times> bool" where
  "get_dir bo ch write_ok wantStr =
     (case (if wantStr \<noteq> [] then ParseUint wantStr else Inr 0) of
        Inl e \<Rightarrow> (HttpError 400, False)
      | Inr want0 \<Rightarrow>
          (let height = chain_Height ch;
               want = (if want0 = 0 then height else want0)
           in if want > height
              then (if chain_BlockWaiter ch want then (serve_block bo ch write_ok want, True)
                    else (HttpError 408, True))
              else (serve_block bo ch write_ok want, False)))"

text \<open>The version that serves a database: \<open>want\<close> starts at 1.\<close>

definition get_db :: "'b block_ops \<Rightarrow> 'b chain_view \<Rightarrow> bool \<Rightarrow> string \<Rightarrow> response \<times> bool" where
  "get_db bo ch write_ok wantStr =
     (case (if wantStr \<noteq> [] then ParseUint wantStr else Inr 1) of
        Inl e \<Rightarrow> (HttpError 400, False)
      | Inr want0 \<Rightarrow>
          (let height = chain_Height ch;
               want = (if want0 = 0 then height else want0)
           in if want > height
              then (if chain_BlockWaiter ch want then (serve_block bo ch write_ok want, True)
                    else (HttpError 408, True))
              else (serve_block bo ch write_ok want, False)))"

section \<open>Observations and runs\<close>

text \<open>What the file of a height holds, as \<open>GetBlock\<close> reads it before parsing.\<close>

definition fs_block :: "fstate \<Rightarrow> u64 \<Rightarrow> error + bytes" where
  "fs_block st h = ReadFile (snd st) (block_path (dir (fst st)) h)"

text \<open>A sequence of calls, each on the state the one before left, whatever it returned.\<close>

definition fs_SaveBlocks :: "'b block_ops \<Rightarrow> fstate \<Rightarrow> 'b list \<Rightarrow> fstate" where
  "fs_SaveBlocks bo st bs = fold (\<lambda>b st. snd (fs_SaveBlock bo st b)) bs st"

definition db_SaveBlocks :: "'b block_ops \<Rightarrow> db \<Rightarrow> 'b list \<Rightarrow> db" where
  "db_SaveBlocks bo d bs = fold (\<lambda>b d. snd (db_SaveBlock bo d b)) bs d"

definition db_SaveSnapshots :: "'s snapshot_ops \<Rightarrow> db \<Rightarrow> 's list \<Rightarrow> db" where
  "db_SaveSnapshots so d sns = fold (\<lambda>sn d. snd (db_SaveSnapshot so d sn)) sns d"

text \<open>The snapshot that the replacement rule keeps: a later one wins unless it is lower.\<close>

definition keep :: "('s \<Rightarrow> u64) \<Rightarrow> 's \<Rightarrow> 's option \<Rightarrow> 's option" where
  "keep hgt sn cur =
     (if hgt sn = 0 then cur
      else case cur of None \<Rightarrow> Some sn | Some c \<Rightarrow> if hgt c > hgt sn then Some c else Some sn)"

section \<open>Test instances of the parameters\<close>

text \<open>
  A block or a snapshot that is its own serialisation, with the height in the first
  byte; the empty snapshot is the empty byte string.
\<close>

definition first_byte :: "bytes \<Rightarrow> u64" where
  "first_byte bs = (case bs of [] \<Rightarrow> 0 | x # _ \<Rightarrow> ucast x)"

definition test_block_ops :: "bytes block_ops" where
  "test_block_ops = \<lparr>Height = first_byte, Bytes = Inr, FromBytes = Inr\<rparr>"

definition test_snapshot_ops :: "bytes snapshot_ops" where
  "test_snapshot_ops = \<lparr>sHeight = first_byte, sBytes = Inr, sFromBytes = Inr, Empty = []\<rparr>"

section \<open>Decimal names and block paths\<close>

lemma digit_char_inj: "a < 10 \<Longrightarrow> b < 10 \<Longrightarrow> digit_char a = digit_char b \<Longrightarrow> a = b"
  unfolding digit_char_def
  by (subst (asm) nth_eq_iff_index_eq) simp_all

lemma digit_char_not_dash: "d < 10 \<Longrightarrow> digit_char d \<noteq> CHR ''-''"
proof -
  assume "d < 10"
  then have "digit_char d \<in> set ''0123456789''"
    unfolding digit_char_def by (intro nth_mem) simp
  then show ?thesis by auto
qed

lemma fmt_d_small: "n < 10 \<Longrightarrow> fmt_d n = [digit_char n]"
  by (subst fmt_d.simps) simp

lemma fmt_d_big: "\<not> n < 10 \<Longrightarrow> fmt_d n = fmt_d (n div 10) @ [digit_char (n mod 10)]"
  by (subst fmt_d.simps) simp

lemma fmt_d_nonempty: "fmt_d n \<noteq> []"
  by (cases "n < 10") (simp_all add: fmt_d_small fmt_d_big)

lemma fmt_d_length: "length (fmt_d n) = 1 \<longleftrightarrow> n < 10"
  using fmt_d_nonempty [of "n div 10"]
  by (cases "n < 10") (simp_all add: fmt_d_small fmt_d_big)

lemma fmt_d_inj: "fmt_d a = fmt_d b \<Longrightarrow> a = b"
proof (induction a arbitrary: b rule: fmt_d.induct)
  case (1 n)
  show ?case
  proof (cases "n < 10")
    case True
    then have "b < 10" using 1(2) fmt_d_length [of n] fmt_d_length [of b] by simp
    with True 1(2) show ?thesis by (simp add: fmt_d_small digit_char_inj)
  next
    case False
    then have nb: "\<not> b < 10" using 1(2) fmt_d_length [of n] fmt_d_length [of b] by simp
    from False nb 1(2) have "fmt_d (n div 10) = fmt_d (b div 10)"
      and "digit_char (n mod 10) = digit_char (b mod 10)"
      by (simp_all add: fmt_d_big)
    then have "n div 10 = b div 10" and "n mod 10 = b mod 10"
      using 1(1) [OF False] by (simp_all add: digit_char_inj)
    then show ?thesis by (metis div_mult_mod_eq)
  qed
qed

lemma fmt_d_no_dash: "CHR ''-'' \<notin> set (fmt_d n)"
proof (induction n rule: fmt_d.induct)
  case (1 n)
  show ?case
  proof (cases "n < 10")
    case True
    then show ?thesis using digit_char_not_dash [of n] by (auto simp: fmt_d_small)
  next
    case False
    then show ?thesis
      using 1 [OF False] digit_char_not_dash [of "n mod 10"] by (auto simp: fmt_d_big)
  qed
qed

lemma split_at_dash:
  assumes "xs @ CHR ''-'' # ys = xs' @ CHR ''-'' # ys'"
    and "CHR ''-'' \<notin> set xs" and "CHR ''-'' \<notin> set xs'"
  shows "xs = xs'"
proof -
  have "takeWhile (\<lambda>c. c \<noteq> CHR ''-'') (xs @ CHR ''-'' # ys) = xs"
    using assms(2) by (subst takeWhile_append2) auto
  moreover have "takeWhile (\<lambda>c. c \<noteq> CHR ''-'') (xs' @ CHR ''-'' # ys') = xs'"
    using assms(3) by (subst takeWhile_append2) auto
  ultimately show ?thesis using assms(1) by simp
qed

lemma shard_low: "unat (h div 1000 * 1000 :: u64) = unat h div 1000 * 1000"
proof -
  have "unat h div 1000 * 1000 \<le> unat h" by simp
  also have "unat h < 2 ^ 64" using unsigned_less [of h] by simp
  finally have "unat h div 1000 * 1000 < 2 ^ LENGTH(64)" by simp
  then show ?thesis
    by (simp add: unat_word_ariths unat_div)
qed

lemma shard_dir_eq:
  "fst (blockFilename root h1) = fst (blockFilename root h2) \<longleftrightarrow> h1 div 1000 = h2 div 1000"
proof
  assume "fst (blockFilename root h1) = fst (blockFilename root h2)"
  then have "fmt_d (unat (h1 div 1000 * 1000)) = fmt_d (unat (h2 div 1000 * 1000))"
    by (auto simp: blockFilename_def path_Join_def Let_def
             intro: split_at_dash [OF _ fmt_d_no_dash fmt_d_no_dash])
  then have "unat h1 div 1000 * 1000 = unat h2 div 1000 * 1000"
    by (auto dest!: fmt_d_inj simp: shard_low)
  then have "unat (h1 div 1000) = unat (h2 div 1000)"
    by (simp add: unat_div)
  then show "h1 div 1000 = h2 div 1000"
    by (simp add: word_unat_eq_iff)
next
  assume "h1 div 1000 = h2 div 1000"
  then show "fst (blockFilename root h1) = fst (blockFilename root h2)"
    by (simp add: blockFilename_def Let_def)
qed

lemma block_file_name_inj:
  "snd (blockFilename root h1) = snd (blockFilename root h2) \<Longrightarrow> h1 = h2"
  by (auto simp: blockFilename_def Let_def word_unat_eq_iff dest!: fmt_d_inj)

text \<open>
  Claim C10. Two different heights have different file names and different block
  paths, and they share the shard directory exactly when their quotients by 1000
  agree; so \<open>SaveBlock\<close> at two heights never opens the same file.
\<close>

theorem blockFilename_distinct:
  assumes "h1 \<noteq> h2"
  shows "snd (blockFilename root h1) \<noteq> snd (blockFilename root h2)
       \<and> block_path root h1 \<noteq> block_path root h2
       \<and> (fst (blockFilename root h1) = fst (blockFilename root h2) \<longleftrightarrow> h1 div 1000 = h2 div 1000)"
proof -
  have n: "snd (blockFilename root h1) \<noteq> snd (blockFilename root h2)"
    using assms block_file_name_inj by blast
  then have "block_path root h1 \<noteq> block_path root h2"
    by (auto simp: block_path_def path_Join_def split: prod.splits)
  with n shard_dir_eq show ?thesis by blast
qed

theorem blockFilename_distinct_witness:
  "(1999 :: u64) \<noteq> 2000
   \<and> snd (blockFilename [''store''] 1999) \<noteq> snd (blockFilename [''store''] 2000)
   \<and> block_path [''store''] 1999 \<noteq> block_path [''store''] 2000
   \<and> (fst (blockFilename [''store''] 1999) = fst (blockFilename [''store''] 2000)
        \<longleftrightarrow> (1999 :: u64) div 1000 = 2000 div 1000)"
  using blockFilename_distinct [of 1999 2000 "[''store'']"] by simp

section \<open>Varints\<close>

lemma unat_drop7: "unat (drop_bit 7 (x :: u64)) = unat x div 128"
  by (simp add: unat_drop_bit_eq) (simp add: drop_bit_eq_div)

lemma low7_aux:
  "k < 8 \<Longrightarrow> ucast ((ucast (y :: u64) OR (2 ^ k :: byte)) AND mask k) = (take_bit k y :: u64)"
  by (rule bit_eqI) (auto simp add: bit_simps)

lemma low7: "ucast ((ucast (y :: u64) OR (0x80 :: byte)) AND 0x7f) = (take_bit 7 y :: u64)"
  using low7_aux [of 7 y] by (simp add: mask_eq_exp_minus_1)

lemma recompose: "take_bit 7 (y :: u64) OR push_bit 7 (drop_bit 7 y) = y"
proof (rule bit_eqI)
  fix n
  show "bit (take_bit 7 y OR push_bit 7 (drop_bit 7 y)) n = bit y n"
    by (cases "n < 7") (auto simp add: bit_simps dest: bit_imp_le_length)
qed

lemma high_bit_set: "\<not> (ucast (y :: u64) OR (0x80 :: byte)) < 0x80"
proof -
  have "(0x80 :: byte) \<le> ucast y OR 0x80" by (rule le_word_or1)
  then show ?thesis by simp
qed

lemma small_byte:
  assumes "(y :: u64) < 0x80"
  shows "(ucast y :: byte) < 0x80" and "(ucast (ucast y :: byte) :: u64) = y"
    and "unat (ucast y :: byte) = unat y"
proof -
  from assms have u: "unat y < 128" by (simp add: word_less_nat_alt)
  then show c: "unat (ucast y :: byte) = unat y"
    by (simp add: unsigned_ucast_eq unsigned_take_bit_eq take_bit_nat_eq_self)
  with u show "(ucast y :: byte) < 0x80" by (simp add: word_less_nat_alt)
  have "unat (ucast (ucast y :: byte) :: u64) = unat y"
    using c u by (simp add: unsigned_ucast_eq unsigned_take_bit_eq take_bit_nat_eq_self)
  then show "(ucast (ucast y :: byte) :: u64) = y" by (simp add: word_unat_eq_iff)
qed

lemma uvarint_loop_Put:
  "i \<le> 9 \<Longrightarrow> unat y < 2 ^ (64 - 7 * i) \<Longrightarrow>
   uvarint_loop (PutUvarint y) i acc (7 * i) =
     (acc OR push_bit (7 * i) y, int (i + length (PutUvarint y)))"
proof (induction y arbitrary: i acc rule: PutUvarint.induct)
  case (1 x)
  show ?case
  proof (cases "0x80 \<le> x")
    case True
    then have big: "128 \<le> unat x" by (simp add: word_le_nat_alt)
    have i8: "i \<le> 8"
    proof (rule ccontr)
      assume "\<not> i \<le> 8"
      with 1(2) have "i = 9" by simp
      with 1(3) big show False by simp
    qed
    have "64 - 7 * i = Suc (Suc (Suc (Suc (Suc (Suc (Suc (64 - 7 * (i + 1))))))))" using i8 by simp
    then have "(2::nat) ^ (64 - 7 * i) = 128 * 2 ^ (64 - 7 * (i + 1))"
      by simp
    with 1(3) have "unat x div 128 < 2 ^ (64 - 7 * (i + 1))"
      by (simp add: less_mult_imp_div_less mult.commute)
    then have small: "unat (drop_bit 7 x) < 2 ^ (64 - 7 * (i + 1))"
      by (simp only: unat_drop7)
    have i1: "i + 1 \<le> 9" using i8 by simp
    have IH: "uvarint_loop (PutUvarint (drop_bit 7 x)) (Suc i) a (7 + 7 * i) =
        (a OR push_bit (7 + 7 * i) (drop_bit 7 x), 1 + (int i + int (length (PutUvarint (drop_bit 7 x)))))" for a
      using 1(1) [OF True i1 small, of a] by (simp add: add.commute)
    have e: "PutUvarint x = (ucast x OR 0x80) # PutUvarint (drop_bit 7 x)"
      using True by (subst PutUvarint.simps) simp
    have s7: "7 * i + 7 = 7 * (i + 1)" by simp
    have "push_bit (7 * i) (take_bit 7 x) OR push_bit (7 + 7 * i) (drop_bit 7 x)
           = push_bit (7 * i) (take_bit 7 x OR push_bit 7 (drop_bit 7 x))"
      by (simp add: push_bit_or push_bit_push_bit add.commute del: push_bit_take_bit)
    then have r: "push_bit (7 * i) (take_bit 7 x) OR push_bit (7 + 7 * i) (drop_bit 7 x)
           = push_bit (7 * i) x"
      by (simp only: recompose)
    show ?thesis
      unfolding e using i8 
      by (simp add: high_bit_set low7 s7 IH or.assoc r del: push_bit_take_bit)
  next
    case False
    then have lt: "x < 0x80" by simp
    have e: "PutUvarint x = [ucast x]"
      using False by (subst PutUvarint.simps) simp
    have "\<not> (ucast x :: byte) > 1" if "i = 9"
      using that 1(3) small_byte(3) [OF lt] by (simp add: word_less_nat_alt)
    then show ?thesis
      unfolding e using 1(2) small_byte [OF lt]
      by auto
  qed
qed

lemma Uvarint_PutUvarint: "Uvarint (PutUvarint x) = (x, int (length (PutUvarint x)))"
  using uvarint_loop_Put [of 0 x 0] unsigned_less [of x] by (simp add: Uvarint_def)

lemma PutUvarint_nonempty: "PutUvarint x \<noteq> []"
  by (subst PutUvarint.simps) simp

section \<open>The file system: directories and walks\<close>

lemma stat_update: "k \<noteq> [] \<Longrightarrow> stat (AList.update k v t) q = (if q = k then Some v else stat t q)"
  by (simp add: stat_def update_conv')

lemma walk_head_dir: "walk t p (c # cs) = Inr () \<Longrightarrow> stat t p = Some Dir"
  by (auto split: option.splits node.splits)

lemma walk_snoc_head_dir: "walk t p (cs @ [x]) = Inr () \<Longrightarrow> stat t p = Some Dir"
  by (cases cs) (auto split: option.splits node.splits)

lemma walk_mono:
  "walk t pre cs = Inr () \<Longrightarrow> (\<And>q. stat t q = Some Dir \<Longrightarrow> stat t' q = Some Dir) \<Longrightarrow>
   walk t' pre cs = Inr ()"
proof (induction cs arbitrary: pre)
  case Nil
  then show ?case by simp
next
  case (Cons c cs)
  from Cons.prems(1) have d: "stat t pre = Some Dir" by (rule walk_head_dir)
  with Cons.prems(1) have "walk t (pre @ [c]) cs = Inr ()" by simp
  then have "walk t' (pre @ [c]) cs = Inr ()" using Cons.prems(2) by (rule Cons.IH)
  moreover have "stat t' pre = Some Dir" using d by (rule Cons.prems(2))
  ultimately show ?case by simp
qed

lemma mkdirAll_from_noop:
  "walk t pre (cs @ [x]) = Inr () \<Longrightarrow> mkdirAll_from t pre cs = (Inr (), t)"
proof (induction cs arbitrary: pre)
  case Nil
  then show ?case by simp
next
  case (Cons c cs)
  from Cons.prems have d: "stat t pre = Some Dir" by (auto split: option.splits node.splits)
  with Cons.prems have w: "walk t (pre @ [c]) (cs @ [x]) = Inr ()" by simp
  then have "stat t (pre @ [c]) = Some Dir" by (rule walk_snoc_head_dir)
  then show ?case using Cons.IH [OF w] by simp
qed

lemma mkdirAll_from_mono:
  "mkdirAll_from t pre cs = (r, t') \<Longrightarrow> stat t q = Some n \<Longrightarrow> stat t' q = Some n"
proof (induction cs arbitrary: t pre)
  case Nil
  then show ?case by simp
next
  case (Cons c cs)
  show ?case
  proof (cases "stat t (pre @ [c])")
    case None
    with Cons.prems(2) have "q \<noteq> pre @ [c]" by auto
    then have "stat (AList.update (pre @ [c]) Dir t) q = Some n"
      using Cons.prems(2) by (simp add: stat_update)
    moreover have "mkdirAll_from (AList.update (pre @ [c]) Dir t) (pre @ [c]) cs = (r, t')"
      using Cons.prems(1) None by simp
    ultimately show ?thesis using Cons.IH by blast
  next
    case (Some m)
    then show ?thesis using Cons by (cases m) auto
  qed
qed

lemma mkdirAll_from_walk:
  "mkdirAll_from t pre cs = (Inr (), t') \<Longrightarrow> stat t pre = Some Dir \<Longrightarrow>
   walk t' pre (cs @ [x]) = Inr ()"
proof (induction cs arbitrary: t pre)
  case Nil
  then show ?case by simp
next
  case (Cons c cs)
  have pre': "stat t' pre = Some Dir"
    using Cons.prems by (rule mkdirAll_from_mono)
  show ?case
  proof (cases "stat t (pre @ [c])")
    case None
    let ?t2 = "AList.update (pre @ [c]) Dir t"
    have "mkdirAll_from ?t2 (pre @ [c]) cs = (Inr (), t')"
      using Cons.prems(1) None by simp
    moreover have "stat ?t2 (pre @ [c]) = Some Dir" by (simp add: stat_update)
    ultimately have "walk t' (pre @ [c]) (cs @ [x]) = Inr ()" by (rule Cons.IH)
    with pre' show ?thesis by simp
  next
    case (Some m)
    show ?thesis
    proof (cases m)
      case (File bs)
      with Some Cons.prems(1) show ?thesis by simp
    next
      case Dir
      with Some Cons.prems(1) have "mkdirAll_from t (pre @ [c]) cs = (Inr (), t')" by simp
      moreover have "stat t (pre @ [c]) = Some Dir" using Some Dir by simp
      ultimately have "walk t' (pre @ [c]) (cs @ [x]) = Inr ()" by (rule Cons.IH)
      with pre' show ?thesis by simp
    qed
  qed
qed

lemma MkdirAll_noop: "walk t [] (d @ [x]) = Inr () \<Longrightarrow> MkdirAll t d = (Inr (), t)"
  by (simp add: MkdirAll_def mkdirAll_from_noop)

lemma MkdirAll_walk: "MkdirAll t d = (Inr (), t') \<Longrightarrow> walk t' [] (d @ [x]) = Inr ()"
  unfolding MkdirAll_def by (rule mkdirAll_from_walk) (simp_all add: stat_def)

lemma ReadFile_Inr: "ReadFile t p = Inr bits \<longleftrightarrow> walk t [] p = Inr () \<and> stat t p = Some (File bits)"
  by (auto simp: ReadFile_def split: sum.splits option.splits node.splits)

lemma block_path_eq: "blockFilename root h = (d, f) \<Longrightarrow> block_path root h = d @ [f]"
  by (simp add: block_path_def path_Join_def)

text \<open>Saving where a file is already stored: the comparison decides, and nothing changes.\<close>

lemma fs_SaveBlock_present:
  assumes "ReadFile t (block_path (dir s) (Height bo b)) = Inr old"
    and "Bytes bo b = Inr bits"
  shows "fs_SaveBlock bo (s, t) b = (if old = bits then Inr () else Inl ErrConflict, (s, t))"
proof -
  obtain d f where df: "blockFilename (dir s) (Height bo b) = (d, f)" by (cases "blockFilename (dir s) (Height bo b)")
  then have p: "block_path (dir s) (Height bo b) = d @ [f]" by (rule block_path_eq)
  from assms(1) have w: "walk t [] (d @ [f]) = Inr ()" and st: "stat t (d @ [f]) = Some (File old)"
    by (simp_all add: ReadFile_Inr p)
  have m: "MkdirAll t d = (Inr (), t)" using w by (rule MkdirAll_noop)
  have o: "OpenFile_excl t (d @ [f]) = (Inl EEXIST, t)"
    using w st by (simp add: OpenFile_excl_def)
  have r: "ReadFile t (d @ [f]) = Inr old" using assms(1) p by simp
  show ?thesis
    by (simp add: fs_SaveBlock_def assms(2) df m o r path_Join_def Let_def)
qed

text \<open>After a successful save the file holds the block's bytes.\<close>

lemma fs_SaveBlock_stores:
  assumes "fs_SaveBlock bo (s, t) b = (Inr (), st')"
  shows "fst st' = s \<and> (\<exists>bits. Bytes bo b = Inr bits \<and> ReadFile (snd st') (block_path (dir s) (Height bo b)) = Inr bits)"
proof -
  obtain d f where df: "blockFilename (dir s) (Height bo b) = (d, f)" by (cases "blockFilename (dir s) (Height bo b)")
  then have p: "block_path (dir s) (Height bo b) = d @ [f]" by (rule block_path_eq)
  from assms obtain bits where bits: "Bytes bo b = Inr bits"
    by (auto simp: fs_SaveBlock_def split: sum.splits)
  from assms bits df obtain t1 where m: "MkdirAll t d = (Inr (), t1)"
    by (auto simp: fs_SaveBlock_def split: sum.splits prod.splits)
  then have w1: "walk t1 [] (d @ [f]) = Inr ()" by (rule MkdirAll_walk)
  show ?thesis
  proof (cases "stat t1 (d @ [f])")
    case None
    then have o: "OpenFile_excl t1 (d @ [f]) = (Inr (d @ [f]), AList.update (d @ [f]) (File []) t1)"
      using w1 by (simp add: OpenFile_excl_def)
    let ?t' = "file_Write (AList.update (d @ [f]) (File []) t1) (d @ [f]) bits"
    have st': "st' = (s, ?t')"
      using assms by (auto simp: fs_SaveBlock_def bits df m o path_Join_def Let_def)
    have "stat ?t' q = Some Dir" if "stat t1 q = Some Dir" for q
      using that None by (auto simp: file_Write_def stat_update)
    with w1 have "walk ?t' [] (d @ [f]) = Inr ()" by (rule walk_mono)
    moreover have "stat ?t' (d @ [f]) = Some (File bits)"
      by (simp add: file_Write_def stat_update)
    ultimately show ?thesis using st' bits p by (simp add: ReadFile_Inr)
  next
    case (Some n)
    then have o: "OpenFile_excl t1 (d @ [f]) = (Inl EEXIST, t1)"
      using w1 by (simp add: OpenFile_excl_def)
    from assms have "st' = (s, t1) \<and> ReadFile t1 (d @ [f]) = Inr bits"
      by (auto simp: fs_SaveBlock_def bits df m o path_Join_def Let_def split: sum.splits if_splits)
    then show ?thesis using bits p by simp
  qed
qed

section \<open>The key-value store: saving a block\<close>

lemma Uvarint_count: "Uvarint (PutUvarint x) = (h, n) \<Longrightarrow> h = x \<and> 1 \<le> n"
proof -
  assume "Uvarint (PutUvarint x) = (h, n)"
  then have "h = x" and "n = int (length (PutUvarint x))"
    by (auto simp: Uvarint_PutUvarint)
  moreover have "1 \<le> length (PutUvarint x)"
    using PutUvarint_nonempty [of x] by (cases "PutUvarint x") simp_all
  ultimately show ?thesis by simp
qed

lemma getHeight_kv: "getHeight (Some r) = getHeight (Some r') " if "kv r ''height'' = kv r' ''height''"
  using that by (simp add: getHeight_def Get_def)

lemma getHeight_put:
  "kv r ''height'' = Some (PutUvarint x) \<Longrightarrow> getHeight (Some r) = Inr x"
  using Uvarint_count [of x] by (auto simp: getHeight_def Get_def split: prod.splits)

lemma getHeight_Some: "getHeight d = Inr h \<Longrightarrow> \<exists>r. d = Some r"
  by (cases d) (simp_all add: getHeight_def)

text \<open>Saving where non-empty bytes are stored: the comparison decides, nothing changes.\<close>

lemma db_SaveBlock_present:
  assumes h: "getHeight d = Inr h"
    and old: "db_block d (Height bo b) = Some old" "old \<noteq> []"
    and bits: "Bytes bo b = Inr bits"
  shows "db_SaveBlock bo d b = (if bits = old then Inr () else Inl ErrConflict, d)"
proof -
  from old(1) obtain r bl bu where d: "d = Some r" and bl: "blocks r = Some bl"
    and bu: "bl (PutUvarint (Height bo b)) = Some bu" and blk: "bu ''block'' = Some old"
    by (auto simp: db_block_def split: option.splits)
  have g: "Get bu ''block'' = old" using blk by (simp add: Get_def)
  have "bl(PutUvarint (Height bo b) \<mapsto> bu) = bl" using bu by (rule map_upd_triv)
  then have same: "r\<lparr>blocks := Some (bl(PutUvarint (Height bo b) \<mapsto> bu))\<rparr> = r"
    using bl by simp
  show ?thesis
    using h old(2) by (simp add: db_SaveBlock_def db_Update_def d bl bu bits g same Let_def)
qed

text \<open>Saving where no bytes, or empty bytes, are stored.\<close>

lemma db_SaveBlock_put:
  assumes h: "getHeight (Some r) = Inr h"
    and bl: "blocks r = Some bl"
    and bu: "bu = (case bl (PutUvarint (Height bo b)) of None \<Rightarrow> Map.empty | Some bu0 \<Rightarrow> bu0)"
    and e: "Get bu ''block'' = []"
    and bits: "Bytes bo b = Inr bits"
  shows "db_SaveBlock bo (Some r) b =
           (Inr (),
            Some \<lparr>kv = (if Height bo b > h then (kv r)(''height'' \<mapsto> PutUvarint (Height bo b)) else kv r),
                 blocks = Some (bl(PutUvarint (Height bo b) \<mapsto> bu(''block'' \<mapsto> bits)))\<rparr>)"
  using h e bu by (simp add: db_SaveBlock_def db_Update_def bl bits Let_def)

lemma db_SaveBlock_cases:
  assumes "db_SaveBlock bo d b = (Inr (), d')"
  obtains (present) h bits where "getHeight d = Inr h" "Bytes bo b = Inr bits" "bits \<noteq> []"
      "db_block d (Height bo b) = Some bits" "d' = d"
  | (put) h r bl bu bits where "d = Some r" "getHeight d = Inr h" "blocks r = Some bl"
      "bu = (case bl (PutUvarint (Height bo b)) of None \<Rightarrow> Map.empty | Some bu0 \<Rightarrow> bu0)"
      "Get bu ''block'' = []" "Bytes bo b = Inr bits"
proof -
  from assms obtain h where h: "getHeight d = Inr h"
    by (auto simp: db_SaveBlock_def db_Update_def split: sum.splits prod.splits)
  then obtain r where d: "d = Some r" by (auto dest: getHeight_Some)
  from assms h d obtain bl where bl: "blocks r = Some bl"
    by (auto simp: db_SaveBlock_def db_Update_def split: sum.splits prod.splits option.splits)
  from assms h d bl obtain bits where bits: "Bytes bo b = Inr bits"
    by (auto simp: db_SaveBlock_def db_Update_def Let_def split: sum.splits prod.splits option.splits)
  define bu where "bu = (case bl (PutUvarint (Height bo b)) of None \<Rightarrow> Map.empty | Some bu0 \<Rightarrow> bu0)"
  show thesis
  proof (cases "Get bu ''block'' = []")
    case True
    show ?thesis by (rule put [OF d h bl bu_def True bits])
  next
    case False
    then obtain bu0 where b0: "bl (PutUvarint (Height bo b)) = Some bu0" and "bu = bu0"
      by (auto simp: bu_def Get_def split: option.splits)
    with False obtain old where o: "bu0 ''block'' = Some old" "old \<noteq> []"
      by (auto simp: Get_def split: option.splits)
    then have blk: "db_block d (Height bo b) = Some old"
      by (simp add: db_block_def d bl b0)
    from db_SaveBlock_present [OF h blk o(2) bits] assms
    have "bits = old" "d' = d" by (auto split: if_splits)
    with blk o(2) show ?thesis using present [OF h bits] by simp
  qed
qed

lemma db_SaveBlock_idem:
  assumes s: "db_SaveBlock bo d b = (Inr (), d')"
    and same: "Bytes bo b' = Bytes bo b" "Height bo b' = Height bo b"
  shows "db_SaveBlock bo d' b' = (Inr (), d') \<and> (\<exists>bits. Bytes bo b = Inr bits \<and> db_block d' (Height bo b) = Some bits)"
  using s
proof (cases rule: db_SaveBlock_cases)
  case (present h bits)
  then show ?thesis
    using db_SaveBlock_present [of d h bo b' bits bits] same by simp
next
  case (put h r bl bu bits)
  let ?k = "PutUvarint (Height bo b)"
  let ?bl' = "bl(?k \<mapsto> bu(''block'' \<mapsto> bits))"
  let ?r' = "\<lparr>kv = (if Height bo b > h then (kv r)(''height'' \<mapsto> ?k) else kv r), blocks = Some ?bl'\<rparr>"
  have d': "d' = Some ?r'"
    using db_SaveBlock_put [OF put(2) [unfolded put(1)] put(3,4,5,6)] s put(1) by simp
  have blk: "db_block d' (Height bo b) = Some bits" by (simp add: d' db_block_def)
  obtain h' where h': "getHeight (Some ?r') = Inr h'" and le: "\<not> Height bo b > h'"
  proof (cases "Height bo b > h")
    case True
    then have "getHeight (Some ?r') = Inr (Height bo b)" by (intro getHeight_put) simp
    then show ?thesis using that by simp
  next
    case False
    then have "getHeight (Some ?r') = getHeight (Some r)" by (intro getHeight_kv) simp
    then show ?thesis using that False put(1,2) by simp
  qed
  show ?thesis
  proof (cases "bits = []")
    case False
    then show ?thesis
      using db_SaveBlock_present [of d' h' bo b' bits bits] h' blk same put(6) d' by simp
  next
    case True
    have "db_SaveBlock bo (Some ?r') b' = (Inr (), Some ?r')"
      by (subst db_SaveBlock_put [where h = h' and bl = "?bl'" and bits = bits and bu = "bu(''block'' \<mapsto> bits)"])
         (use h' le same put(6) True in \<open>simp_all add: Get_def\<close>)
    then show ?thesis using d' blk put(6) by simp
  qed
qed

lemma db_SaveBlock_height:
  assumes "getHeight d = Inr h"
  shows "\<exists>h'. getHeight (snd (db_SaveBlock bo d b)) = Inr h' \<and> h \<le> h'"
proof (cases "db_SaveBlock bo d b")
  case (Pair res d')
  show ?thesis
  proof (cases res)
    case (Inl e)
    with Pair have "d' = d" by (auto simp: db_SaveBlock_def db_Update_def split: sum.splits prod.splits)
    with Pair assms show ?thesis by simp
  next
    case (Inr u)
    with Pair have s: "db_SaveBlock bo d b = (Inr (), d')" by simp
    then show ?thesis
    proof (cases rule: db_SaveBlock_cases)
      case (present h0 bits)
      with Pair assms show ?thesis by simp
    next
      case (put h0 r bl bu bits)
      let ?k = "PutUvarint (Height bo b)"
      let ?r' = "\<lparr>kv = (if Height bo b > h0 then (kv r)(''height'' \<mapsto> ?k) else kv r),
                  blocks = Some (bl(?k \<mapsto> bu(''block'' \<mapsto> bits)))\<rparr>"
      have d': "d' = Some ?r'"
        using db_SaveBlock_put [OF put(2) [unfolded put(1)] put(3,4,5,6)] s put(1) by simp
      have hh: "h0 = h" using assms put(2) by simp
      show ?thesis
      proof (cases "Height bo b > h")
        case True
        then have "getHeight (Some ?r') = Inr (Height bo b)" using hh by (intro getHeight_put) simp
        then show ?thesis using True Pair d' by simp
      next
        case False
        then have "getHeight (Some ?r') = getHeight (Some r)" using hh by (intro getHeight_kv) simp
        then show ?thesis using Pair d' assms put(1) by simp
      qed
    qed
  qed
qed

section \<open>Saving at a free height\<close>

lemma walk_snoc:
  "walk t pre (cs @ [c]) = Inr () \<longleftrightarrow> walk t pre cs = Inr () \<and> stat t (pre @ cs) = Some Dir"
  by (induction cs arbitrary: pre) (auto split: option.splits node.splits)

lemma ReadDir_Inr: "ReadDir t p = Inr infos \<Longrightarrow> walk t [] (p @ [x]) = Inr ()"
  by (auto simp: ReadDir_def walk_snoc split: sum.splits option.splits node.splits)

lemma mkdirAll_from_last:
  assumes "walk t pre (cs @ [c]) = Inr ()" and "\<And>x. stat t (pre @ cs @ [c]) \<noteq> Some (File x)"
  shows "mkdirAll_from t pre (cs @ [c]) =
           (Inr (), if stat t (pre @ cs @ [c]) = None then AList.update (pre @ cs @ [c]) Dir t else t)"
  using assms
proof (induction cs arbitrary: pre)
  case Nil
  then show ?case by (cases "stat t (pre @ [c])") (auto split: node.splits)
next
  case (Cons a cs)
  from Cons.prems(1) have w: "walk t (pre @ [a]) (cs @ [c]) = Inr ()"
    by (auto split: option.splits node.splits)
  then have "stat t (pre @ [a]) = Some Dir" by (rule walk_snoc_head_dir)
  then show ?case using Cons.IH [OF w] Cons.prems(2) by simp
qed

text \<open>Saving at a height with no file, in a store whose directory can be listed.\<close>

lemma fs_SaveBlock_fresh:
  assumes rd: "ReadDir t (dir s) = Inr infos"
    and shard: "\<And>x. stat t (fst (blockFilename (dir s) (Height bo b))) \<noteq> Some (File x)"
    and free: "stat t (block_path (dir s) (Height bo b)) = None"
    and bits: "Bytes bo b = Inr bits"
  shows "\<exists>t'. fs_SaveBlock bo (s, t) b = (Inr (), (s, t'))"
proof -
  obtain d f where df: "blockFilename (dir s) (Height bo b) = (d, f)"
    by (cases "blockFilename (dir s) (Height bo b)")
  then have p: "block_path (dir s) (Height bo b) = d @ [f]" by (rule block_path_eq)
  from df obtain name where d: "d = dir s @ [name]"
    by (auto simp: blockFilename_def path_Join_def Let_def)
  have w: "walk t [] (dir s @ [name]) = Inr ()" using rd by (rule ReadDir_Inr)
  have nf: "stat t ([] @ dir s @ [name]) \<noteq> Some (File x)" for x using shard [of x] df d by simp
  define t1 where "t1 = (if stat t d = None then AList.update d Dir t else t)"
  have m: "MkdirAll t d = (Inr (), t1)"
    using mkdirAll_from_last [OF w nf] by (simp add: MkdirAll_def d t1_def)
  then have w1: "walk t1 [] (d @ [f]) = Inr ()" by (rule MkdirAll_walk)
  have "stat t1 (d @ [f]) = None"
    using free p by (simp add: t1_def stat_update d)
  then have o: "OpenFile_excl t1 (d @ [f]) = (Inr (d @ [f]), AList.update (d @ [f]) (File []) t1)"
    using w1 by (simp add: OpenFile_excl_def)
  show ?thesis
    by (simp add: fs_SaveBlock_def bits df m o path_Join_def Let_def)
qed

lemma db_SaveBlock_fresh:
  assumes "getHeight (Some r) = Inr h" and "blocks r = Some bl"
    and "db_block (Some r) (Height bo b) = None" and "Bytes bo b = Inr bits"
  shows "\<exists>d'. db_SaveBlock bo (Some r) b = (Inr (), d')"
proof -
  define bu where "bu = (case bl (PutUvarint (Height bo b)) of None \<Rightarrow> Map.empty | Some bu0 \<Rightarrow> bu0)"
  have "Get bu ''block'' = []"
    using assms(2,3) by (auto simp: bu_def db_block_def Get_def split: option.splits)
  from db_SaveBlock_put [OF assms(1,2) bu_def this assms(4)] show ?thesis by blast
qed

section \<open>Small values\<close>

lemma PutUvarint_1: "PutUvarint 1 = [1]" by code_simp
lemma PutUvarint_2: "PutUvarint 2 = [2]" by code_simp
lemma Uvarint_1: "Uvarint [1] = (1, 1)" by code_simp
lemma Uvarint_2: "Uvarint [2] = (2, 1)" by code_simp

section \<open>Sequences of saves\<close>

lemma fs_SaveBlock_store: "fst (snd (fs_SaveBlock bo st b)) = fst st"
  by (cases st) (auto simp: fs_SaveBlock_def Let_def split: sum.splits prod.splits)

lemma fs_SaveBlocks_store: "fst (fs_SaveBlocks bo st bs) = fst st"
  unfolding fs_SaveBlocks_def
  by (induction bs arbitrary: st) (simp_all add: fs_SaveBlock_store)

lemma db_SaveBlocks_height:
  "getHeight d = Inr h \<Longrightarrow> \<exists>h'. getHeight (db_SaveBlocks bo d bs) = Inr h' \<and> h \<le> h'"
proof (induction bs arbitrary: d h)
  case Nil
  then show ?case by (simp add: db_SaveBlocks_def)
next
  case (Cons b bs)
  from db_SaveBlock_height [OF Cons.prems, of bo b]
  obtain h1 where h1: "getHeight (snd (db_SaveBlock bo d b)) = Inr h1" "h \<le> h1" by blast
  from Cons.IH [OF h1(1)] obtain h' where
    "getHeight (db_SaveBlocks bo (snd (db_SaveBlock bo d b)) bs) = Inr h'" "h1 \<le> h'" by blast
  with h1(2) show ?case by (auto simp: db_SaveBlocks_def)
qed

section \<open>Shard names and the scan at start-up\<close>

lemma parse_digits_all: "parse_digits acc s = Some n \<Longrightarrow> \<forall>c \<in> set s. digit_val c \<noteq> None"
  by (induction s arbitrary: acc) (auto split: option.splits)

lemma fmt_d_hd_digit: "hd (fmt_d n) \<in> set ''0123456789''"
proof (induction n rule: fmt_d.induct)
  case (1 n)
  show ?case
  proof (cases "n < 10")
    case True
    then have "digit_char n \<in> set ''0123456789''"
      unfolding digit_char_def by (intro nth_mem) simp
    with True show ?thesis by (simp add: fmt_d_small)
  next
    case False
    then show ?thesis
      using 1 [OF False] fmt_d_nonempty [of "n div 10"] by (simp add: fmt_d_big)
  qed
qed

text \<open>No shard directory has a name that \<open>strconv.Atoi\<close> accepts.\<close>

lemma Atoi_shard_name: "Atoi (last (fst (blockFilename root h))) = Inl ErrSyntax"
proof -
  define a where "a = fmt_d (unat (h div 1000 * 1000))"
  define b where "b = fmt_d (unat (h div 1000 * 1000 + 999))"
  have n: "last (fst (blockFilename root h)) = a @ ''-'' @ b"
    by (simp add: blockFilename_def path_Join_def Let_def a_def b_def)
  have ne: "a \<noteq> []" by (simp add: a_def fmt_d_nonempty)
  have "hd a \<in> set ''0123456789''" unfolding a_def by (rule fmt_d_hd_digit)
  then have hd: "hd (a @ ''-'' @ b) \<noteq> CHR ''-''" "hd (a @ ''-'' @ b) \<noteq> CHR ''+''"
    using ne by auto
  have "parse_digits 0 (a @ ''-'' @ b) = None"
  proof (rule ccontr)
    assume "parse_digits 0 (a @ ''-'' @ b) \<noteq> None"
    then obtain m where "parse_digits 0 (a @ ''-'' @ b) = Some m" by auto
    then have "digit_val CHR ''-'' \<noteq> None" by (auto dest!: parse_digits_all)
    then show False by (simp add: digit_val_def)
  qed
  then show ?thesis using hd ne by (simp add: n Atoi_def Let_def)
qed

section \<open>Snapshots\<close>

text \<open>What \<open>SaveSnapshot\<close> wrote is what \<open>LatestSnapshot\<close> parses, whatever was there.\<close>

lemma fs_SaveSnapshot_latest:
  assumes "fs_SaveSnapshot so st sn = (Inr (), st')"
  shows "\<exists>bits. sBytes so sn = Inr bits \<and> fs_LatestSnapshot so st' = sFromBytes so bits"
proof -
  obtain s t where st: "st = (s, t)" by (cases st)
  let ?p = "path_Join (dir s) ''snapshot''"
  from assms st obtain bits where bits: "sBytes so sn = Inr bits"
    by (auto simp: fs_SaveSnapshot_def split: sum.splits)
  from assms st bits have w: "WriteFile t ?p bits = (Inr (), snd st')" and s': "fst st' = s"
    by (auto simp: fs_SaveSnapshot_def split: prod.splits)
  then have wk: "walk t [] ?p = Inr ()" and nd: "stat t ?p \<noteq> Some Dir"
    and t': "snd st' = AList.update ?p (File bits) t"
    by (auto simp: WriteFile_def split: sum.splits option.splits node.splits)
  have "stat (snd st') q = Some Dir" if "stat t q = Some Dir" for q
    using that nd by (auto simp: t' stat_update path_Join_def)
  with wk have "walk (snd st') [] ?p = Inr ()" by (rule walk_mono)
  moreover have "stat (snd st') ?p = Some (File bits)"
    by (simp add: t' stat_update path_Join_def)
  ultimately have "ReadFile (snd st') ?p = Inr bits" by (simp add: ReadFile_Inr)
  then show ?thesis using bits s' by (simp add: fs_LatestSnapshot_def)
qed

lemma db_SaveSnapshot_zero: "sHeight so sn = 0 \<Longrightarrow> db_SaveSnapshot so d sn = (Inr (), d)"
  by (simp add: db_SaveSnapshot_def)

lemma keep_apply:
  "keep hgt sn cur =
     (if hgt sn = 0 then cur
      else case cur of None \<Rightarrow> Some sn | Some c \<Rightarrow> if hgt c > hgt sn then Some c else Some sn)"
  by (simp add: keep_def)

lemma db_SaveSnapshot_step:
  assumes h: "getHeight (Some r) = Inr h" and bl: "blocks r = Some bl"
    and nz: "sHeight so sn \<noteq> 0" and bits: "sBytes so sn = Inr bits"
    and slot: "case cur of None \<Rightarrow> Get (kv r) ''latest_snapshot'' = []
               | Some c \<Rightarrow> Get (kv r) ''latest_snapshot'' \<noteq> []
                    \<and> sFromBytes so (Get (kv r) ''latest_snapshot'') = Inr c"
  shows "\<exists>r' bl'. db_SaveSnapshot so (Some r) sn = (Inr (), Some r') \<and> blocks r' = Some bl'
           \<and> kv r' ''height'' = kv r ''height''
           \<and> Get (kv r') ''latest_snapshot'' =
               (if keep (sHeight so) sn cur = Some sn then bits else Get (kv r) ''latest_snapshot'')"
proof (cases cur)
  case None
  with slot have "Get (kv r) ''latest_snapshot'' = []" by simp
  then show ?thesis
    using h nz by (simp add: db_SaveSnapshot_def db_Update_def bl bits Let_def keep_apply None Get_def)
next
  case (Some c)
  with slot have "Get (kv r) ''latest_snapshot'' \<noteq> []"
    and "sFromBytes so (Get (kv r) ''latest_snapshot'') = Inr c" by simp_all
  then show ?thesis
    using h nz by (auto simp: db_SaveSnapshot_def db_Update_def bl bits Let_def keep_apply Some Get_def)
qed

lemma db_SaveSnapshots_latest:
  assumes codec: "\<And>s. s \<in> set sns \<Longrightarrow> sHeight so s \<noteq> 0 \<Longrightarrow>
                    \<exists>bits. sBytes so s = Inr bits \<and> bits \<noteq> [] \<and> sFromBytes so bits = Inr s"
    and h: "getHeight (Some r) = Inr h" and bl: "blocks r = Some bl"
    and slot: "case cur of None \<Rightarrow> Get (kv r) ''latest_snapshot'' = []
               | Some c \<Rightarrow> Get (kv r) ''latest_snapshot'' \<noteq> []
                    \<and> sFromBytes so (Get (kv r) ''latest_snapshot'') = Inr c"
  shows "db_LatestSnapshot so (db_SaveSnapshots so (Some r) sns) =
           Inr (case fold (keep (sHeight so)) sns cur of None \<Rightarrow> Empty so | Some s \<Rightarrow> s)"
  using assms
proof (induction sns arbitrary: r h bl cur)
  case Nil
  then show ?case
    by (auto simp: db_SaveSnapshots_def db_LatestSnapshot_def db_View_def Let_def split: option.splits)
next
  case (Cons sn sns)
  show ?case
  proof (cases "sHeight so sn = 0")
    case True
    then have "db_SaveSnapshot so (Some r) sn = (Inr (), Some r)" by (simp add: db_SaveSnapshot_def)
    moreover have "keep (sHeight so) sn cur = cur" using True by (simp add: keep_apply)
    ultimately show ?thesis
      using Cons.IH [of r h bl cur] Cons.prems by (simp add: db_SaveSnapshots_def)
  next
    case False
    with Cons.prems(1) [of sn] obtain bits where bits: "sBytes so sn = Inr bits" "bits \<noteq> []"
      "sFromBytes so bits = Inr sn" by auto
    from db_SaveSnapshot_step [OF Cons.prems(2,3) False bits(1) Cons.prems(4)]
    obtain r' bl' where st: "db_SaveSnapshot so (Some r) sn = (Inr (), Some r')"
      and bl': "blocks r' = Some bl'" and hk: "kv r' ''height'' = kv r ''height''"
      and sl: "Get (kv r') ''latest_snapshot'' =
               (if keep (sHeight so) sn cur = Some sn then bits else Get (kv r) ''latest_snapshot'')"
      by blast
    have h': "getHeight (Some r') = Inr h"
      using getHeight_kv [OF hk] Cons.prems(2) by simp
    have slot': "case keep (sHeight so) sn cur of None \<Rightarrow> Get (kv r') ''latest_snapshot'' = []
               | Some c \<Rightarrow> Get (kv r') ''latest_snapshot'' \<noteq> []
                    \<and> sFromBytes so (Get (kv r') ''latest_snapshot'') = Inr c"
      using Cons.prems(4) sl bits False
      by (auto simp: keep_apply split: option.splits if_splits)
    have "db_LatestSnapshot so (db_SaveSnapshots so (Some r') sns) =
           Inr (case fold (keep (sHeight so)) sns (keep (sHeight so) sn cur) of
                  None \<Rightarrow> Empty so | Some s \<Rightarrow> s)"
      using Cons.prems(1) by (intro Cons.IH [OF _ h' bl' slot']) simp
    then show ?thesis using st by (simp add: db_SaveSnapshots_def)
  qed
qed

text \<open>
  What the rule keeps from no snapshot: nothing when every height is 0, and otherwise
  the last snapshot of the greatest height.
\<close>

lemma fold_keep_None:
  "fold (keep hgt) xs None = None \<longleftrightarrow> (\<forall>x \<in> set xs. hgt x = 0)"
proof (induction xs rule: rev_induct)
  case Nil
  then show ?case by simp
next
  case (snoc x xs)
  then show ?case by (auto simp: keep_apply split: option.splits)
qed

lemma fold_keep_Some:
  "fold (keep hgt) xs None = Some s \<Longrightarrow>
   hgt s \<noteq> 0 \<and> (\<exists>pre post. xs = pre @ s # post \<and> (\<forall>x \<in> set pre. hgt x \<le> hgt s)
                     \<and> (\<forall>x \<in> set post. hgt x < hgt s))"
proof (induction xs arbitrary: s rule: rev_induct)
  case Nil
  then show ?case by simp
next
  case (snoc x xs)
  show ?case
  proof (cases "fold (keep hgt) xs None")
    case None
    then have z: "\<forall>y \<in> set xs. hgt y = 0" by (simp add: fold_keep_None)
    from snoc.prems have "keep hgt x (fold (keep hgt) xs None) = Some s" by simp
    with None have "s = x" "hgt x \<noteq> 0"
      by (auto simp: keep_apply split: if_splits)
    moreover have "xs @ [x] = xs @ x # []" by simp
    ultimately show ?thesis using z by (metis empty_iff list.set(1) word_coorder.extremum)
  next
    case (Some c)
    from snoc.IH [OF Some] obtain pre post where c: "hgt c \<noteq> 0" "xs = pre @ c # post"
      "\<forall>y \<in> set pre. hgt y \<le> hgt c" "\<forall>y \<in> set post. hgt y < hgt c" by blast
    show ?thesis
    proof (cases "hgt x = 0 \<or> hgt c > hgt x")
      case True
      from snoc.prems have "keep hgt x (fold (keep hgt) xs None) = Some s" by simp
      with True Some have "s = c" by (auto simp: keep_apply split: if_splits)
      moreover have "hgt x < hgt c" using True c(1) by (auto simp: word_greater_zero_iff)
      ultimately show ?thesis using c
        by (intro conjI exI [of _ pre] exI [of _ "post @ [x]"]) auto
    next
      case False
      from snoc.prems have "keep hgt x (fold (keep hgt) xs None) = Some s" by simp
      with False Some have sx: "s = x" by (auto simp: keep_apply split: if_splits)
      from False have le: "hgt c \<le> hgt x" and nz: "hgt x \<noteq> 0" by auto
      have "\<forall>y \<in> set xs. hgt y \<le> hgt x"
        using c le by (auto intro: order_trans less_imp_le)
      then show ?thesis using sx nz
        by (intro conjI exI [of _ xs] exI [of _ "[]"]) auto
    qed
  qed
qed

section \<open>Reading a block, and the height pointer\<close>

text \<open>Reading a height with no file fails; the error tells a missing name from a
  file in the place of a directory.\<close>

lemma fs_GetBlock_absent:
  "stat (snd st) (block_path (dir (fst st)) h) = None \<Longrightarrow>
   fs_GetBlock bo st h = Inl ENOENT \<or> fs_GetBlock bo st h = Inl ENOTDIR"
proof -
  assume a: "stat (snd st) (block_path (dir (fst st)) h) = None"
  have "walk t pre cs = Inr () \<or> walk t pre cs = Inl ENOENT \<or> walk t pre cs = Inl ENOTDIR"
    for t pre cs
    by (induction cs arbitrary: pre) (auto split: option.splits node.splits)
  from this [of "snd st" "[]" "block_path (dir (fst st)) h"] a show ?thesis
    by (auto simp: fs_GetBlock_def ReadFile_def)
qed

lemma fs_GetBlock_corrupt:
  "fs_block st h = Inr bits \<Longrightarrow> FromBytes bo bits = Inl e \<Longrightarrow> fs_GetBlock bo st h = Inl e"
  by (simp add: fs_GetBlock_def fs_block_def)

lemma db_GetBlock_no_bucket:
  "d = Some r \<Longrightarrow> blocks r = Some bl \<Longrightarrow> bl (PutUvarint h) = None \<Longrightarrow>
   db_GetBlock bo d h = Inl NilDereference"
  by (simp add: db_GetBlock_def db_View_def)

text \<open>In the key-value store a save that stores the block moves the pointer to the
  block's height when that is higher, and no save moves it otherwise.\<close>

lemma db_SaveBlock_pointer:
  assumes s: "db_SaveBlock bo d b = (Inr (), d')" and h: "getHeight d = Inr h"
  shows "getHeight d' = Inr h \<or> (Height bo b > h \<and> getHeight d' = Inr (Height bo b))"
    and "db_block d (Height bo b) = None \<Longrightarrow>
         getHeight d' = Inr (if Height bo b > h then Height bo b else h)"
proof -
  have "(getHeight d' = Inr h \<or> (Height bo b > h \<and> getHeight d' = Inr (Height bo b)))
      \<and> (db_block d (Height bo b) = None \<longrightarrow>
         getHeight d' = Inr (if Height bo b > h then Height bo b else h))"
    using s
  proof (cases rule: db_SaveBlock_cases)
    case (present h0 bits)
    with h show ?thesis by simp
  next
    case (put h0 r bl bu bits)
    let ?k = "PutUvarint (Height bo b)"
    let ?r' = "\<lparr>kv = (if Height bo b > h0 then (kv r)(''height'' \<mapsto> ?k) else kv r),
                blocks = Some (bl(?k \<mapsto> bu(''block'' \<mapsto> bits)))\<rparr>"
    have d': "d' = Some ?r'"
      using db_SaveBlock_put [OF put(2) [unfolded put(1)] put(3,4,5,6)] s put(1) by simp
    have hh: "h0 = h" using h put(2) by simp
    show ?thesis
    proof (cases "Height bo b > h")
      case True
      then have "getHeight (Some ?r') = Inr (Height bo b)" using hh by (intro getHeight_put) simp
      then show ?thesis using True d' by simp
    next
      case False
      then have "getHeight (Some ?r') = getHeight (Some r)" using hh by (intro getHeight_kv) simp
      then show ?thesis using False d' h put(1) by simp
    qed
  qed
  then show "getHeight d' = Inr h \<or> (Height bo b > h \<and> getHeight d' = Inr (Height bo b))"
    and "db_block d (Height bo b) = None \<Longrightarrow>
         getHeight d' = Inr (if Height bo b > h then Height bo b else h)"
    by simp_all
qed

section \<open>The claims\<close>

text \<open>
  Claim C1. In both stores: saving a block at a height where nothing is stored succeeds
  (in a store whose directory can be listed, or whose height pointer and blocks bucket
  are there); saving again with the same bytes at the same height succeeds and leaves
  the state as the first save left it, with these bytes stored at the height; and
  saving over different stored bytes returns the conflict error and leaves the state
  unchanged. In the key-value store the stored bytes are non-empty, as a serialised
  block is, and the height pointer is readable.
\<close>

theorem SaveBlock_twice:
  "(ReadDir (snd st0) (dir (fst st0)) = Inr infos
      \<and> (stat (snd st0) (fst (blockFilename (dir (fst st0)) (Height bo b0))) = None
         \<or> stat (snd st0) (fst (blockFilename (dir (fst st0)) (Height bo b0))) = Some Dir)
      \<and> stat (snd st0) (block_path (dir (fst st0)) (Height bo b0)) = None
      \<and> Bytes bo b0 = Inr bits0
      \<longrightarrow> (\<exists>st1. fs_SaveBlock bo st0 b0 = (Inr (), st1)))
   \<and> (fs_SaveBlock bo st b = (Inr (), st') \<and> Bytes bo b' = Bytes bo b \<and> Height bo b' = Height bo b
      \<longrightarrow> fs_SaveBlock bo st' b' = (Inr (), st') \<and> fs_block st' (Height bo b) = Bytes bo b)
   \<and> (fs_block st2 (Height bo b2) = Inr old \<and> Bytes bo b2 = Inr bits \<and> bits \<noteq> old
      \<longrightarrow> fs_SaveBlock bo st2 b2 = (Inl ErrConflict, st2))
   \<and> (db_Height (Some r0) = Inr h0 \<and> blocks r0 = Some bl0
        \<and> db_block (Some r0) (Height bo b0) = None \<and> Bytes bo b0 = Inr bits0
      \<longrightarrow> (\<exists>d1. db_SaveBlock bo (Some r0) b0 = (Inr (), d1)))
   \<and> (db_SaveBlock bo d b = (Inr (), d') \<and> Bytes bo b' = Bytes bo b \<and> Height bo b' = Height bo b
      \<longrightarrow> db_SaveBlock bo d' b' = (Inr (), d')
          \<and> (\<exists>bits'. Bytes bo b = Inr bits' \<and> db_block d' (Height bo b) = Some bits'))
   \<and> (db_Height d2 = Inr h \<and> db_block d2 (Height bo b2) = Some old \<and> old \<noteq> []
        \<and> Bytes bo b2 = Inr bits \<and> bits \<noteq> old
      \<longrightarrow> db_SaveBlock bo d2 b2 = (Inl ErrConflict, d2))"
proof (intro conjI impI)
  assume a: "ReadDir (snd st0) (dir (fst st0)) = Inr infos
      \<and> (stat (snd st0) (fst (blockFilename (dir (fst st0)) (Height bo b0))) = None
         \<or> stat (snd st0) (fst (blockFilename (dir (fst st0)) (Height bo b0))) = Some Dir)
      \<and> stat (snd st0) (block_path (dir (fst st0)) (Height bo b0)) = None
      \<and> Bytes bo b0 = Inr bits0"
  then have "\<exists>t'. fs_SaveBlock bo (fst st0, snd st0) b0 = (Inr (), (fst st0, t'))"
    by (intro fs_SaveBlock_fresh [where infos = infos and bits = bits0]) auto
  then show "\<exists>st1. fs_SaveBlock bo st0 b0 = (Inr (), st1)" by auto
next
  assume a: "fs_SaveBlock bo st b = (Inr (), st') \<and> Bytes bo b' = Bytes bo b \<and> Height bo b' = Height bo b"
  obtain s t where st: "st = (s, t)" by (cases st)
  from a st fs_SaveBlock_stores [of bo s t b st'] obtain bits' where
    s': "fst st' = s" and b: "Bytes bo b = Inr bits'"
    and r: "ReadFile (snd st') (block_path (dir s) (Height bo b)) = Inr bits'" by auto
  from s' have e: "st' = (s, snd st')" by (cases st') simp
  have "fs_SaveBlock bo (s, snd st') b' = (Inr (), (s, snd st'))"
    using fs_SaveBlock_present [of "snd st'" s bo b' bits' bits'] r a b by simp
  then show "fs_SaveBlock bo st' b' = (Inr (), st')" using e by simp
  show "fs_block st' (Height bo b) = Bytes bo b"
    using r b s' by (simp add: fs_block_def)
next
  assume a: "fs_block st2 (Height bo b2) = Inr old \<and> Bytes bo b2 = Inr bits \<and> bits \<noteq> old"
  obtain s t where st: "st2 = (s, t)" by (cases st2)
  show "fs_SaveBlock bo st2 b2 = (Inl ErrConflict, st2)"
    using fs_SaveBlock_present [of t s bo b2 old bits] a st by (auto simp: fs_block_def)
next
  assume "db_Height (Some r0) = Inr h0 \<and> blocks r0 = Some bl0
        \<and> db_block (Some r0) (Height bo b0) = None \<and> Bytes bo b0 = Inr bits0"
  then show "\<exists>d1. db_SaveBlock bo (Some r0) b0 = (Inr (), d1)"
    using db_SaveBlock_fresh [of r0 h0 bl0 bo b0 bits0] by (simp add: db_Height_def db_View_def)
next
  assume a: "db_SaveBlock bo d b = (Inr (), d') \<and> Bytes bo b' = Bytes bo b \<and> Height bo b' = Height bo b"
  then show "db_SaveBlock bo d' b' = (Inr (), d')"
    and "\<exists>bits'. Bytes bo b = Inr bits' \<and> db_block d' (Height bo b) = Some bits'"
    using db_SaveBlock_idem [of bo d b d' b'] by simp_all
next
  assume a: "db_Height d2 = Inr h \<and> db_block d2 (Height bo b2) = Some old \<and> old \<noteq> []
        \<and> Bytes bo b2 = Inr bits \<and> bits \<noteq> old"
  then show "db_SaveBlock bo d2 b2 = (Inl ErrConflict, d2)"
    using db_SaveBlock_present [of d2 h bo b2 old bits] by (simp add: db_Height_def db_View_def)
qed

theorem SaveBlock_twice_witness:
  "(\<exists>st1. fs_SaveBlock test_block_ops
       (\<lparr>dir = [''store''], height = 0\<rparr>, [([''store''], Dir)]) [1, 7] = (Inr (), st1))
   \<and> fs_SaveBlock test_block_ops
       (\<lparr>dir = [''store''], height = 0\<rparr>,
        [([''store''], Dir), ([''store'', ''0-999''], Dir), ([''store'', ''0-999'', ''1''], File [1, 7])])
       [1, 7]
     = (Inr (),
        (\<lparr>dir = [''store''], height = 0\<rparr>,
         [([''store''], Dir), ([''store'', ''0-999''], Dir), ([''store'', ''0-999'', ''1''], File [1, 7])]))
   \<and> fs_SaveBlock test_block_ops
       (\<lparr>dir = [''store''], height = 0\<rparr>,
        [([''store''], Dir), ([''store'', ''0-999''], Dir), ([''store'', ''0-999'', ''1''], File [1, 7])])
       [1, 8]
     = (Inl ErrConflict,
        (\<lparr>dir = [''store''], height = 0\<rparr>,
         [([''store''], Dir), ([''store'', ''0-999''], Dir), ([''store'', ''0-999'', ''1''], File [1, 7])]))
   \<and> (\<exists>d1. db_SaveBlock test_block_ops
       (Some \<lparr>kv = [''height'' \<mapsto> [1]], blocks = Some [[1] \<mapsto> [''block'' \<mapsto> [1, 0]]]\<rparr>)
       [2, 5] = (Inr (), d1))
   \<and> db_SaveBlock test_block_ops
       (Some \<lparr>kv = [''height'' \<mapsto> [2]],
              blocks = Some [[1] \<mapsto> [''block'' \<mapsto> [1, 0]], [2] \<mapsto> [''block'' \<mapsto> [2, 5]]]\<rparr>)
       [2, 5]
     = (Inr (),
        Some \<lparr>kv = [''height'' \<mapsto> [2]],
              blocks = Some [[1] \<mapsto> [''block'' \<mapsto> [1, 0]], [2] \<mapsto> [''block'' \<mapsto> [2, 5]]]\<rparr>)
   \<and> db_SaveBlock test_block_ops
       (Some \<lparr>kv = [''height'' \<mapsto> [2]],
              blocks = Some [[1] \<mapsto> [''block'' \<mapsto> [1, 0]], [2] \<mapsto> [''block'' \<mapsto> [2, 5]]]\<rparr>)
       [2, 6]
     = (Inl ErrConflict,
        Some \<lparr>kv = [''height'' \<mapsto> [2]],
              blocks = Some [[1] \<mapsto> [''block'' \<mapsto> [1, 0]], [2] \<mapsto> [''block'' \<mapsto> [2, 5]]]\<rparr>)"
proof -
  let ?s = "\<lparr>dir = [''store''], height = 0\<rparr>"
  let ?t0 = "[([''store''], Dir)]"
  let ?t1 = "[([''store''], Dir), ([''store'', ''0-999''], Dir), ([''store'', ''0-999'', ''1''], File [1, 7])]"
  let ?r0 = "\<lparr>kv = [''height'' \<mapsto> [1]], blocks = Some [[1] \<mapsto> [''block'' \<mapsto> [1, 0]]]\<rparr>"
  let ?d1 = "Some \<lparr>kv = [''height'' \<mapsto> [2]],
              blocks = Some [[1] \<mapsto> [''block'' \<mapsto> [1, 0]], [2] \<mapsto> [''block'' \<mapsto> [2, 5]]]\<rparr>"
  have f0: "ReadDir ?t0 [''store''] = Inr []"
    "stat ?t0 (fst (blockFilename [''store''] 1)) = None"
    "stat ?t0 (block_path [''store''] 1) = None"
    by code_simp+
  have f1: "fs_SaveBlock test_block_ops (?s, ?t0) [1, 7] = (Inr (), (?s, ?t1))"
    by code_simp
  have f2: "fs_block (?s, ?t1) (Height test_block_ops [1, 8]) = Inr [1, 7]"
    by code_simp
  have c: "Bytes test_block_ops x = Inr x" "Height test_block_ops [1, 8] = 1"
    "Height test_block_ops [1, 7] = 1" "Height test_block_ops [2, 5] = 2"
    "Height test_block_ops [2, 6] = 2" for x
    by (simp_all add: test_block_ops_def first_byte_def)
  have g0: "db_Height (Some ?r0) = Inr 1" "db_block (Some ?r0) 2 = None"
    by (simp_all add: db_Height_def db_View_def getHeight_def Uvarint_1 Get_def db_block_def
          PutUvarint_2)
  have g1: "db_SaveBlock test_block_ops (Some ?r0) [2, 5] = (Inr (), ?d1)"
    by (simp add: db_SaveBlock_def db_Update_def getHeight_def Uvarint_1 Get_def c
          PutUvarint_2 Let_def)
  have g2: "db_Height ?d1 = Inr 2"
    by (simp add: db_Height_def db_View_def getHeight_def Uvarint_2 Get_def)
  have g3: "db_block ?d1 2 = Some [2, 5]"
    by (simp add: db_block_def PutUvarint_2)
  show ?thesis
    using SaveBlock_twice [where bo = test_block_ops and ?st0.0 = "(?s, ?t0)" and ?b0.0 = "[1, 7]"
        and infos = "[]" and ?bits0.0 = "[1, 7]"
        and st = "(?s, ?t0)" and b = "[1, 7]"
        and st' = "(?s, ?t1)" and b' = "[1, 7]" and ?st2.0 = "(?s, ?t1)" and ?b2.0 = "[1, 8]"
        and old = "[1, 7]" and bits = "[1, 8]"]
      SaveBlock_twice [where bo = test_block_ops and ?r0.0 = ?r0 and ?h0.0 = 1 and ?b0.0 = "[2, 5]"
        and ?bits0.0 = "[2, 5]" and ?bl0.0 = "[[1] \<mapsto> [''block'' \<mapsto> [1, 0]]]"
        and d = "Some ?r0" and b = "[2, 5]" and d' = ?d1
        and b' = "[2, 5]" and ?d2.0 = ?d1 and ?b2.0 = "[2, 6]" and old = "[2, 5]"
        and bits = "[2, 6]" and h = 2]
      f0 f1 f2 g0 g1 g2 g3
    by (simp add: c)
qed

text \<open>
  Claim C2. The file-system store recovers its height from the directories whose
  names are integers, and \<open>SaveBlock\<close> names its directories \<open>low-high\<close>: after
  blocks 1 and 2 are saved, a new store on the same directory has height 0.
\<close>

theorem newBlockStore_recovers_zero:
  "fs_SaveBlock test_block_ops (\<lparr>dir = [''store''], height = 0\<rparr>, [([''store''], Dir)]) [1, 7]
     = (Inr (),
        (\<lparr>dir = [''store''], height = 0\<rparr>,
         [([''store''], Dir), ([''store'', ''0-999''], Dir),
          ([''store'', ''0-999'', ''1''], File [1, 7])]))
   \<and> fs_SaveBlock test_block_ops
        (\<lparr>dir = [''store''], height = 0\<rparr>,
         [([''store''], Dir), ([''store'', ''0-999''], Dir),
          ([''store'', ''0-999'', ''1''], File [1, 7])]) [2, 8]
     = (Inr (),
        (\<lparr>dir = [''store''], height = 0\<rparr>,
         [([''store''], Dir), ([''store'', ''0-999''], Dir),
          ([''store'', ''0-999'', ''1''], File [1, 7]),
          ([''store'', ''0-999'', ''2''], File [2, 8])]))
   \<and> Height test_block_ops [2, 8] = 2
   \<and> Atoi ''0-999'' = Inl ErrSyntax
   \<and> newBlockStore
        [([''store''], Dir), ([''store'', ''0-999''], Dir),
         ([''store'', ''0-999'', ''1''], File [1, 7]),
         ([''store'', ''0-999'', ''2''], File [2, 8])] [''store'']
     = (Inr \<lparr>dir = [''store''], height = 0\<rparr>,
        [([''store''], Dir), ([''store'', ''0-999''], Dir),
         ([''store'', ''0-999'', ''1''], File [1, 7]),
         ([''store'', ''0-999'', ''2''], File [2, 8])])"
  by code_simp

text \<open>
  Claim C3. In the file-system store a successful \<open>SaveBlock\<close> of a block above the
  height leaves the height where it was: a new store has height 0, and still has
  after block 1 is saved.
\<close>

theorem fs_SaveBlock_leaves_height:
  "newBlockStore [] [''store''] = (Inr \<lparr>dir = [''store''], height = 0\<rparr>, [([''store''], Dir)])
   \<and> Height test_block_ops [1, 7] = 1
   \<and> fs_Height (\<lparr>dir = [''store''], height = 0\<rparr>, [([''store''], Dir)]) = Inr 0
   \<and> fs_SaveBlock test_block_ops (\<lparr>dir = [''store''], height = 0\<rparr>, [([''store''], Dir)]) [1, 7]
     = (Inr (),
        (\<lparr>dir = [''store''], height = 0\<rparr>,
         [([''store''], Dir), ([''store'', ''0-999''], Dir),
          ([''store'', ''0-999'', ''1''], File [1, 7])]))
   \<and> fs_Height
        (\<lparr>dir = [''store''], height = 0\<rparr>,
         [([''store''], Dir), ([''store'', ''0-999''], Dir),
          ([''store'', ''0-999'', ''1''], File [1, 7])]) = Inr 0"
  by code_simp

text \<open>
  Claim C4. In the file-system store \<open>SaveSnapshot\<close> replaces the snapshot whatever
  its height: after the snapshots of heights 5 and 3 are saved in this order,
  \<open>LatestSnapshot\<close> returns the one of height 3.
\<close>

theorem fs_SaveSnapshot_overwrites_higher:
  "sHeight test_snapshot_ops [5, 1] = 5 \<and> sHeight test_snapshot_ops [3, 2] = 3
   \<and> fs_SaveSnapshot test_snapshot_ops (\<lparr>dir = [''store''], height = 0\<rparr>, [([''store''], Dir)]) [5, 1]
     = (Inr (),
        (\<lparr>dir = [''store''], height = 0\<rparr>,
         [([''store''], Dir), ([''store'', ''snapshot''], File [5, 1])]))
   \<and> fs_SaveSnapshot test_snapshot_ops
        (\<lparr>dir = [''store''], height = 0\<rparr>,
         [([''store''], Dir), ([''store'', ''snapshot''], File [5, 1])]) [3, 2]
     = (Inr (),
        (\<lparr>dir = [''store''], height = 0\<rparr>,
         [([''store''], Dir), ([''store'', ''snapshot''], File [3, 2])]))
   \<and> fs_LatestSnapshot test_snapshot_ops
        (\<lparr>dir = [''store''], height = 0\<rparr>,
         [([''store''], Dir), ([''store'', ''snapshot''], File [3, 2])]) = Inr [3, 2]"
  by code_simp

text \<open>
  Claim C5. In the file-system store \<open>SaveSnapshot\<close> of a snapshot of height 0, here
  the empty one, writes the snapshot file: it replaces the stored snapshot of height 5.
\<close>

theorem fs_SaveSnapshot_height_zero_writes:
  "sHeight test_snapshot_ops (Empty test_snapshot_ops) = 0
   \<and> fs_LatestSnapshot test_snapshot_ops
        (\<lparr>dir = [''store''], height = 0\<rparr>,
         [([''store''], Dir), ([''store'', ''snapshot''], File [5, 1])]) = Inr [5, 1]
   \<and> fs_SaveSnapshot test_snapshot_ops
        (\<lparr>dir = [''store''], height = 0\<rparr>,
         [([''store''], Dir), ([''store'', ''snapshot''], File [5, 1])]) (Empty test_snapshot_ops)
     = (Inr (),
        (\<lparr>dir = [''store''], height = 0\<rparr>,
         [([''store''], Dir), ([''store'', ''snapshot''], File [])]))
   \<and> fs_LatestSnapshot test_snapshot_ops
        (\<lparr>dir = [''store''], height = 0\<rparr>,
         [([''store''], Dir), ([''store'', ''snapshot''], File [])]) = Inr []"
  by code_simp

text \<open>
  Claim C6. In the key-value store \<open>GetBlock\<close> at a height with no bucket calls
  \<open>Get\<close> on a nil bucket: on a new store, which holds the block of height 1, the
  call at height 2 panics.
\<close>

theorem db_GetBlock_missing_panics:
  "db_newBlockStore test_block_ops (Inr [1, 0]) None
     = (Inr (),
        Some \<lparr>kv = [''height'' \<mapsto> [1]], blocks = Some [[1] \<mapsto> [''block'' \<mapsto> [1, 0]]]\<rparr>)
   \<and> db_block
        (Some \<lparr>kv = [''height'' \<mapsto> [1]], blocks = Some [[1] \<mapsto> [''block'' \<mapsto> [1, 0]]]\<rparr>) 2 = None
   \<and> db_GetBlock test_block_ops
        (Some \<lparr>kv = [''height'' \<mapsto> [1]], blocks = Some [[1] \<mapsto> [''block'' \<mapsto> [1, 0]]]\<rparr>) 2
     = Inl NilDereference"
  by (simp add: db_newBlockStore_def db_Update_def db_GetBlock_def db_View_def db_block_def
        Get_def test_block_ops_def PutUvarint_1 PutUvarint_2 Let_def)

text \<open>
  Claim C7. Over any sequence of \<open>SaveBlock\<close> calls on either store, whatever each
  returns, \<open>Height\<close> read after is at least \<open>Height\<close> read before.
\<close>

theorem Height_never_decreases:
  "(fs_Height st = Inr h \<longrightarrow> (\<exists>h'. fs_Height (fs_SaveBlocks bo st bs) = Inr h' \<and> h \<le> h'))
   \<and> (db_Height d = Inr h \<longrightarrow> (\<exists>h'. db_Height (db_SaveBlocks bo d bs) = Inr h' \<and> h \<le> h'))"
  using db_SaveBlocks_height [of d h bo bs]
  by (auto simp: fs_Height_def fs_SaveBlocks_store db_Height_def db_View_def)

theorem Height_never_decreases_witness:
  "fs_Height (\<lparr>dir = [''store''], height = 0\<rparr>, [([''store''], Dir)]) = Inr 0
   \<and> (\<exists>h'. fs_Height (fs_SaveBlocks test_block_ops
                (\<lparr>dir = [''store''], height = 0\<rparr>, [([''store''], Dir)]) [[2, 5]]) = Inr h' \<and> 0 \<le> h')
   \<and> db_Height (Some \<lparr>kv = [''height'' \<mapsto> [1]],
                      blocks = Some [[1] \<mapsto> [''block'' \<mapsto> [1, 0]]]\<rparr>) = Inr 1
   \<and> (\<exists>h'. db_Height (db_SaveBlocks test_block_ops
                (Some \<lparr>kv = [''height'' \<mapsto> [1]],
                       blocks = Some [[1] \<mapsto> [''block'' \<mapsto> [1, 0]]]\<rparr>) [[2, 5]]) = Inr h' \<and> 1 \<le> h')"
proof -
  let ?st = "(\<lparr>dir = [''store''], height = 0\<rparr>, [([''store''], Dir)])"
  let ?d0 = "Some \<lparr>kv = [''height'' \<mapsto> [1]], blocks = Some [[1] \<mapsto> [''block'' \<mapsto> [1, 0]]]\<rparr>"
  have a: "fs_Height ?st = Inr 0" by (simp add: fs_Height_def)
  have b: "db_Height ?d0 = Inr 1"
    by (simp add: db_Height_def db_View_def getHeight_def Uvarint_1 Get_def)
  show ?thesis
    using Height_never_decreases [of ?st 0 test_block_ops "[[2, 5]]" ?d0]
      Height_never_decreases [of ?st 1 test_block_ops "[[2, 5]]" ?d0] a b
    by simp
qed

text \<open>
  Claim C8. A requested height of 0 resolves to the chain's height, and a resolved
  height that is at most the chain's height is served without reaching the wait; with
  no height in the request one version serves the chain's height and the other serves
  height 1, waiting only when the chain's height is 0. Serving writes the bytes of the
  block that \<open>chain.GetBlock\<close> returns.
\<close>

theorem get_resolves_height:
  "(wantStr \<noteq> [] \<and> ParseUint wantStr = Inr 0
      \<longrightarrow> get_dir bo ch w wantStr = (serve_block bo ch w (chain_Height ch), False)
        \<and> get_db bo ch w wantStr = (serve_block bo ch w (chain_Height ch), False))
   \<and> (wantStr \<noteq> [] \<and> ParseUint wantStr = Inr n \<and> n \<noteq> 0 \<and> n \<le> chain_Height ch
      \<longrightarrow> get_dir bo ch w wantStr = (serve_block bo ch w n, False)
        \<and> get_db bo ch w wantStr = (serve_block bo ch w n, False))
   \<and> get_dir bo ch w [] = (serve_block bo ch w (chain_Height ch), False)
   \<and> get_db bo ch w [] =
       (if 1 \<le> chain_Height ch then (serve_block bo ch w 1, False)
        else if chain_BlockWaiter ch 1 then (serve_block bo ch w 1, True)
        else (HttpError 408, True))
   \<and> (chain_GetBlock ch m = Inr blk \<and> Bytes bo blk = Inr bits
      \<longrightarrow> serve_block bo ch True m = HttpOK bits)"
proof (intro conjI impI)
  show "get_dir bo ch w [] = (serve_block bo ch w (chain_Height ch), False)"
    by (simp add: get_dir_def)
  show "get_db bo ch w [] =
       (if 1 \<le> chain_Height ch then (serve_block bo ch w 1, False)
        else if chain_BlockWaiter ch 1 then (serve_block bo ch w 1, True)
        else (HttpError 408, True))"
    by (auto simp: get_db_def Let_def not_le)
qed (auto simp: get_dir_def get_db_def serve_block_def Let_def)

theorem get_resolves_height_witness:
  "get_dir test_block_ops
      \<lparr>chain_Height = 2, chain_BlockWaiter = (\<lambda>h. False), chain_GetBlock = (\<lambda>h. Inr [ucast h, 5])\<rparr>
      True ''0'' = (HttpOK [2, 5], False)
   \<and> get_db test_block_ops
      \<lparr>chain_Height = 2, chain_BlockWaiter = (\<lambda>h. False), chain_GetBlock = (\<lambda>h. Inr [ucast h, 5])\<rparr>
      True ''0'' = (HttpOK [2, 5], False)
   \<and> get_dir test_block_ops
      \<lparr>chain_Height = 2, chain_BlockWaiter = (\<lambda>h. False), chain_GetBlock = (\<lambda>h. Inr [ucast h, 5])\<rparr>
      True ''1'' = (HttpOK [1, 5], False)
   \<and> get_db test_block_ops
      \<lparr>chain_Height = 2, chain_BlockWaiter = (\<lambda>h. False), chain_GetBlock = (\<lambda>h. Inr [ucast h, 5])\<rparr>
      True ''1'' = (HttpOK [1, 5], False)"
proof -
  let ?ch = "\<lparr>chain_Height = 2, chain_BlockWaiter = (\<lambda>h. False),
              chain_GetBlock = (\<lambda>h :: u64. Inr [ucast h :: byte, 5] :: error + bytes)\<rparr>"
  have p0: "ParseUint ''0'' = Inr 0" and p1: "ParseUint ''1'' = Inr 1" by code_simp+
  have s: "serve_block test_block_ops ?ch True 2 = HttpOK [2, 5]"
    "serve_block test_block_ops ?ch True 1 = HttpOK [1, 5]"
    using get_resolves_height [of _ test_block_ops ?ch _ _ 2 "[2, 5]" "[2, 5]"]
      get_resolves_height [of _ test_block_ops ?ch _ _ 1 "[1, 5]" "[1, 5]"]
    by (simp_all add: test_block_ops_def)
  show ?thesis
    using get_resolves_height [of "''0''" test_block_ops ?ch True 0]
      get_resolves_height [of "''1''" test_block_ops ?ch True 1] p0 p1 s
    by simp
qed

end
